theory Spec2Isabelle
  imports Complex_Main
begin

section \<open>Strings and numbers of the host language\<close>

text \<open>
  Strings are modelled as HOL strings. \<open>toLowerCase\<close> folds the ASCII letters, which
  is all the retryable markers and the messages built by the orchestrator contain.
\<close>

definition lowerChar :: "char \<Rightarrow> char" where
  "lowerChar c =
     (case map_of (zip ''ABCDEFGHIJKLMNOPQRSTUVWXYZ'' ''abcdefghijklmnopqrstuvwxyz'') c of
        Some d \<Rightarrow> d
      | None \<Rightarrow> c)"

definition toLowerCase :: "string \<Rightarrow> string" where
  "toLowerCase s = map lowerChar s"

fun startsWith :: "string \<Rightarrow> string \<Rightarrow> bool" where
  "startsWith s [] = True"
| "startsWith [] (p # ps) = False"
| "startsWith (c # cs) (p # ps) = (c = p \<and> startsWith cs ps)"

text \<open>\<open>String.prototype.includes\<close>: the pattern occurs at some position of the string.\<close>

fun includes_str :: "string \<Rightarrow> string \<Rightarrow> bool" where
  "includes_str [] p = startsWith [] p"
| "includes_str (c # cs) p = (startsWith (c # cs) p \<or> includes_str cs p)"

text \<open>
  Integers printed in a template literal (\<open>`${Date.now()}`\<close>, \<open>`${ms}ms`\<close>): decimal
  digits, with a leading minus sign for a negative value.
\<close>

definition digitChar :: "nat \<Rightarrow> char" where
  "digitChar d = ''0123456789'' ! d"

function decimal :: "nat \<Rightarrow> string" where
  "decimal n = (if n < 10 then [digitChar n] else decimal (n div 10) @ [digitChar (n mod 10)])"
  by pat_completeness auto
termination
  by (relation "measure id") auto

declare decimal.simps [simp del]

definition toString :: "int \<Rightarrow> string" where
  "toString i = (if i < 0 then CHR ''-'' # decimal (nat (- i)) else decimal (nat i))"

text \<open>
  A JavaScript number is an IEEE-754 double: a finite value, an infinity, or \<open>NaN\<close>.
  Finite values are kept as reals; the two zeros are not told apart. Arithmetic on
  numbers does not fault: it yields \<open>NaN\<close> for \<open>0 / 0\<close>, \<open>0 * Infinity\<close> and
  \<open>Infinity - Infinity\<close>, and it rounds every exact finite result to a double, which is
  an infinity when the result overflows. The rounding is the host's; the operations take
  it as the argument \<open>fl\<close>.
\<close>

datatype number = Finite real | PosInfinity | NegInfinity | NaN

text \<open>\<open>a <= b\<close>, which is false when either side is \<open>NaN\<close>.\<close>

fun leNum :: "number \<Rightarrow> number \<Rightarrow> bool" where
  "leNum NaN b = False"
| "leNum a NaN = False"
| "leNum NegInfinity b = True"
| "leNum a PosInfinity = True"
| "leNum (Finite x) (Finite y) = (x \<le> y)"
| "leNum PosInfinity b = False"
| "leNum a NegInfinity = False"

fun negNum :: "number \<Rightarrow> number" where
  "negNum (Finite x) = Finite (- x)"
| "negNum PosInfinity = NegInfinity"
| "negNum NegInfinity = PosInfinity"
| "negNum NaN = NaN"

fun jsMultiply :: "(real \<Rightarrow> number) \<Rightarrow> number \<Rightarrow> number \<Rightarrow> number" where
  "jsMultiply fl NaN b = NaN"
| "jsMultiply fl a NaN = NaN"
| "jsMultiply fl (Finite x) (Finite y) = fl (x * y)"
| "jsMultiply fl (Finite x) PosInfinity =
     (if x = 0 then NaN else if 0 < x then PosInfinity else NegInfinity)"
| "jsMultiply fl (Finite x) NegInfinity =
     (if x = 0 then NaN else if 0 < x then NegInfinity else PosInfinity)"
| "jsMultiply fl PosInfinity (Finite y) =
     (if y = 0 then NaN else if 0 < y then PosInfinity else NegInfinity)"
| "jsMultiply fl NegInfinity (Finite y) =
     (if y = 0 then NaN else if 0 < y then NegInfinity else PosInfinity)"
| "jsMultiply fl PosInfinity PosInfinity = PosInfinity"
| "jsMultiply fl PosInfinity NegInfinity = NegInfinity"
| "jsMultiply fl NegInfinity PosInfinity = NegInfinity"
| "jsMultiply fl NegInfinity NegInfinity = PosInfinity"

fun jsAdd :: "(real \<Rightarrow> number) \<Rightarrow> number \<Rightarrow> number \<Rightarrow> number" where
  "jsAdd fl NaN b = NaN"
| "jsAdd fl a NaN = NaN"
| "jsAdd fl (Finite x) (Finite y) = fl (x + y)"
| "jsAdd fl PosInfinity NegInfinity = NaN"
| "jsAdd fl NegInfinity PosInfinity = NaN"
| "jsAdd fl PosInfinity b = PosInfinity"
| "jsAdd fl NegInfinity b = NegInfinity"
| "jsAdd fl a PosInfinity = PosInfinity"
| "jsAdd fl a NegInfinity = NegInfinity"

definition jsSubtract :: "(real \<Rightarrow> number) \<Rightarrow> number \<Rightarrow> number \<Rightarrow> number" where
  "jsSubtract fl a b = jsAdd fl a (negNum b)"

text \<open>The quotient of two finite numbers.\<close>

definition jsDivide :: "(real \<Rightarrow> number) \<Rightarrow> real \<Rightarrow> real \<Rightarrow> number" where
  "jsDivide fl x y =
     (if y = 0 then (if x = 0 then NaN else if 0 < x then PosInfinity else NegInfinity)
      else fl (x / y))"

text \<open>\<open>Math.min\<close> of two numbers: \<open>NaN\<close> when either is.\<close>

definition mathMin :: "number \<Rightarrow> number \<Rightarrow> number" where
  "mathMin a b = (if a = NaN \<or> b = NaN then NaN else if leNum a b then a else b)"

text \<open>
  The number arithmetic of the engine: its rounding of an exact result, and its
  \<open>Math.pow\<close>, whose accuracy the language leaves to the implementation.
\<close>

record hostArith =
  roundToDouble :: "real \<Rightarrow> number"
  mathPow :: "real \<Rightarrow> int \<Rightarrow> number"

text \<open>
  What the statements below use of the rounding to double: it never yields \<open>NaN\<close>, it
  is monotone, it leaves a double as it is, it commutes with negation, and 0, 1 and 2 are
  doubles.
\<close>

definition roundsLikeDouble :: "(real \<Rightarrow> number) \<Rightarrow> bool" where
  "roundsLikeDouble fl =
     ((\<forall>x. fl x \<noteq> NaN)
      \<and> (\<forall>x y. x \<le> y \<longrightarrow> leNum (fl x) (fl y))
      \<and> (\<forall>x y. fl x = Finite y \<longrightarrow> fl y = Finite y)
      \<and> (\<forall>x. fl (- x) = negNum (fl x))
      \<and> fl 0 = Finite 0 \<and> fl 1 = Finite 1 \<and> fl 2 = Finite 2)"

text \<open>
  Two engines for the examples. The first computes exactly. The second computes exactly
  below \<open>2^1024\<close> and overflows from there on. On the numbers of the examples both
  agree with double arithmetic.
\<close>

definition exactArith :: hostArith where
  "exactArith =
     \<lparr>roundToDouble = Finite,
      mathPow = (\<lambda>b e. if b = 0 \<and> e < 0 then PosInfinity else Finite (power_int b e))\<rparr>"

definition overflowRound :: "real \<Rightarrow> number" where
  "overflowRound x =
     (if 2 ^ 1024 \<le> x then PosInfinity else if x \<le> - (2 ^ 1024) then NegInfinity else Finite x)"

definition overflowingArith :: hostArith where
  "overflowingArith =
     \<lparr>roundToDouble = overflowRound,
      mathPow = (\<lambda>b e. if b = 0 \<and> e < 0 then PosInfinity else overflowRound (power_int b e))\<rparr>"

section \<open>Data model of OrchestratorV2\<close>

record RetryPolicy =
  maxRetries :: int
  initialDelayMs :: real
  maxDelayMs :: real
  backoffMultiplier :: real

record OrchestratorContext =
  attempt :: nat
  timestamp :: string
  steps :: "string list"
  cacheKey :: string
  success :: bool

record OrchestratorContextV2 = OrchestratorContext +
  durationMs :: int
  error :: "string option"

record Metrics =
  totalAttempts :: nat
  successfulAttempts :: nat
  totalTimeMs :: int

subsection \<open>Backoff calculator\<close>

text \<open>
  \<open>calculateDelay(attempt)\<close> in the arithmetic \<open>ha\<close> of the engine; the value drawn
  from \<open>Math.random()\<close> is the argument \<open>rnd\<close>, a double that the host picks in
  \<open>[0, 1)\<close>. The literal \<open>0.2\<close> stands for the double nearest to 2/10. The policy
  holds finite numbers.
\<close>

definition calculateDelay :: "hostArith \<Rightarrow> RetryPolicy \<Rightarrow> nat \<Rightarrow> real \<Rightarrow> number" where
  "calculateDelay ha p n rnd =
     (let fl = roundToDouble ha;
          exponentialDelay =
            mathMin (jsMultiply fl (Finite (initialDelayMs p))
                       (mathPow ha (backoffMultiplier p) (int n - 1)))
                    (Finite (maxDelayMs p));
          jitter =
            jsMultiply fl (jsMultiply fl exponentialDelay (fl (2 / 10)))
              (jsSubtract fl (jsMultiply fl (Finite rnd) (Finite 2)) (Finite 1))
      in jsAdd fl exponentialDelay jitter)"

subsection \<open>Error classifier\<close>

definition retryablePatterns :: "string list" where
  "retryablePatterns =
     [''timeout'', ''network'', ''FAILED_TO_START_DEVICE'', ''NotFoundError'', ''temporary'']"

definition isRetryableError :: "string \<Rightarrow> bool" where
  "isRetryableError errorMsg =
     list_ex (\<lambda>pattern. includes_str (toLowerCase errorMsg) (toLowerCase pattern)) retryablePatterns"

section \<open>Collaborators and the host environment\<close>

text \<open>
  The orchestrator awaits browser operations whose results it does not control. A settled
  promise either resolves with a value or rejects; a rejection carries the description
  that the \<open>catch\<close> block derives from the thrown value (\<open>error.message\<close>, or
  \<open>String(error)\<close>). A promise is \<open>Prompt\<close> when it settles before a deadline timer
  raced against it fires, \<open>Late\<close> when it settles only afterwards, and it may never settle.
\<close>

type_synonym blob = "nat list"

datatype mediaStream = MediaStream nat

datatype 'a settled = Resolves 'a | Rejects string

datatype 'a promise = Prompt "'a settled" | Late "'a settled" | Never

text \<open>
  The Cache API during one attempt: absent from \<open>globalThis\<close>; \<open>caches.open\<close>
  rejecting or never settling; \<open>cache.put\<close> rejecting or never settling; or the
  response stored. Both calls are awaited without a deadline.
\<close>

datatype cacheBehaviour =
  CachesAbsent
| OpenRejects string
| OpenNeverSettles
| PutRejects string
| PutNeverSettles
| PutResolves

record response =
  body :: blob
  headers :: "(string \<times> string) list"

type_synonym cache = "string \<rightharpoonup> response"

text \<open>
  What the host does during one attempt, in the order the attempt consults it: the clock
  readings of \<open>Date.now()\<close> and \<open>new Date().toISOString()\<close>, the collaborators'
  promises, and the value of \<open>Math.random()\<close>.
\<close>

record attemptEnv =
  nowAttemptStart :: int
  isoTimestamp :: string
  nowCacheKey :: int
  captureWithSteps :: "(blob option \<times> string list) promise"
  cacheApi :: cacheBehaviour
  isoCachedAt :: string
  getDisplayMedia :: "mediaStream option promise"
  streamClone :: "mediaStream settled"
  nowAttemptEnd :: int
  random :: real

text \<open>A run reads the clock before and after its loop; attempts are numbered from 1.\<close>

record runEnv =
  nowStart :: int
  attempts :: "nat \<Rightarrow> attemptEnv"
  nowEnd :: int

subsection \<open>Arrays as heap objects\<close>

text \<open>
  The history is a JavaScript array, an object with identity. Arrays live in a store
  indexed by reference; allocation takes the next unused reference. The records held by
  an array are kept by value.
\<close>

type_synonym ref = nat

record 'r arrayHeap =
  arrays :: "ref \<Rightarrow> 'r list"
  nextRef :: ref

text \<open>\<open>a.push(x)\<close>\<close>

definition push :: "ref \<Rightarrow> 'r \<Rightarrow> 'r arrayHeap \<Rightarrow> 'r arrayHeap" where
  "push a x h = h\<lparr>arrays := (arrays h)(a := arrays h a @ [x])\<rparr>"

text \<open>An array literal: \<open>[]\<close>, or the spread copy \<open>[...a]\<close> built from the elements of \<open>a\<close>.\<close>

definition newArray :: "'r list \<Rightarrow> 'r arrayHeap \<Rightarrow> ref \<times> 'r arrayHeap" where
  "newArray xs h = (nextRef h, h\<lparr>arrays := (arrays h)(nextRef h := xs), nextRef := Suc (nextRef h)\<rparr>)"

definition spread :: "ref \<Rightarrow> 'r arrayHeap \<Rightarrow> ref \<times> 'r arrayHeap" where
  "spread a h = newArray (arrays h a) h"

text \<open>
  Any in-place change of the array at \<open>a\<close> by code that holds the reference (\<open>push\<close>,
  \<open>pop\<close>, \<open>splice\<close>, an index assignment): afterwards it holds \<open>ys\<close>.
\<close>

definition overwrite :: "ref \<Rightarrow> 'r list \<Rightarrow> 'r arrayHeap \<Rightarrow> 'r arrayHeap" where
  "overwrite a ys h = h\<lparr>arrays := (arrays h)(a := ys)\<rparr>"

subsection \<open>Timeout guard\<close>

definition timeoutMessage :: "int \<Rightarrow> string" where
  "timeoutMessage ms = ''Operation timeout after '' @ toString ms @ ''ms''"

text \<open>\<open>withTimeout\<close>: the promise raced against a timer that rejects.\<close>

definition withTimeout :: "'a promise \<Rightarrow> int \<Rightarrow> 'a settled" where
  "withTimeout p ms =
     (case p of
        Prompt r \<Rightarrow> r
      | Late r \<Rightarrow> Rejects (timeoutMessage ms)
      | Never \<Rightarrow> Rejects (timeoutMessage ms))"


subsection \<open>Stream clone provider\<close>

text \<open>
  \<open>CloneStreamModule.cloneAndMimic\<close> calls \<open>stream.clone()\<close>, attaches a key listener
  and returns the clone; \<open>stream.clone()\<close> is a synchronous call, so the method
  settles. On \<open>null\<close> the call throws a TypeError, whose wording is the engine's (here
  that of V8).
\<close>

definition nullCloneMessage :: string where
  "nullCloneMessage =
     ''Cannot read properties of null (reading '' @ [CHR 0x27] @ ''clone'' @ [CHR 0x27] @ '')''"

definition cloneAndMimic :: "attemptEnv \<Rightarrow> mediaStream option \<Rightarrow> mediaStream settled" where
  "cloneAndMimic e stream =
     (case stream of
        None \<Rightarrow> Rejects nullCloneMessage
      | Some s \<Rightarrow> streamClone e)"

section \<open>OrchestratorV2\<close>

record OrchestratorV2 =
  context_ref :: ref
  retryPolicy :: RetryPolicy
  operationTimeout :: int
  metrics :: Metrics

text \<open>
  The orchestrator instance together with what its methods act on: the array store, the
  cache named \<open>assistant-cache\<close>, the delays of the retry timers awaited so far, and
  the number arithmetic of the engine it runs on. Counts, the operation timeout and clock
  readings are integers.
\<close>

record world =
  this :: OrchestratorV2
  heap :: "OrchestratorContextV2 arrayHeap"
  cacheStorage :: cache
  timers :: "number list"
  arithmetic :: hostArith

definition history :: "world \<Rightarrow> OrchestratorContextV2 list" where
  "history w = arrays (heap w) (context_ref (this w))"

text \<open>The array that the instance refers to has been allocated.\<close>

definition allocated :: "world \<Rightarrow> bool" where
  "allocated w = (context_ref (this w) < nextRef (heap w))"

text \<open>The instance as constructed, on the engine that computes exactly.\<close>

definition defaultRetryPolicy :: RetryPolicy where
  "defaultRetryPolicy =
     \<lparr>maxRetries = 3, initialDelayMs = 500, maxDelayMs = 5000, backoffMultiplier = 2\<rparr>"

definition newOrchestratorV2 :: world where
  "newOrchestratorV2 =
     \<lparr>this = \<lparr>context_ref = 0,
              retryPolicy = defaultRetryPolicy,
              operationTimeout = 30000,
              metrics = \<lparr>totalAttempts = 0, successfulAttempts = 0, totalTimeMs = 0\<rparr>\<rparr>,
      heap = \<lparr>arrays = (\<lambda>a. []), nextRef = 1\<rparr>,
      cacheStorage = Map.empty,
      timers = [],
      arithmetic = exactArith\<rparr>"

text \<open>\<open>setRetryPolicy(policy: Partial<RetryPolicy>)\<close>: the fields given override.\<close>

record PartialRetryPolicy =
  maxRetries_opt :: "int option"
  initialDelayMs_opt :: "real option"
  maxDelayMs_opt :: "real option"
  backoffMultiplier_opt :: "real option"

definition setRetryPolicy :: "PartialRetryPolicy \<Rightarrow> world \<Rightarrow> world" where
  "setRetryPolicy policy w =
     (let old = retryPolicy (this w)
      in w\<lparr>this := (this w)\<lparr>retryPolicy :=
           \<lparr>maxRetries = (case maxRetries_opt policy of Some v \<Rightarrow> v | None \<Rightarrow> maxRetries old),
            initialDelayMs =
              (case initialDelayMs_opt policy of Some v \<Rightarrow> v | None \<Rightarrow> initialDelayMs old),
            maxDelayMs = (case maxDelayMs_opt policy of Some v \<Rightarrow> v | None \<Rightarrow> maxDelayMs old),
            backoffMultiplier =
              (case backoffMultiplier_opt policy of Some v \<Rightarrow> v
               | None \<Rightarrow> backoffMultiplier old)\<rparr>\<rparr>\<rparr>)"

definition setOperationTimeout :: "int \<Rightarrow> world \<Rightarrow> world" where
  "setOperationTimeout ms w = w\<lparr>this := (this w)\<lparr>operationTimeout := ms\<rparr>\<rparr>"

subsection \<open>Cache side-effect adapter\<close>

text \<open>
  The statements inside the \<open>try\<close> of \<open>cacheScreenshot\<close>. The result is \<open>None\<close>
  when an awaited call never settles: the statements after it are never reached.
\<close>

definition cachePut :: "attemptEnv \<Rightarrow> string \<Rightarrow> blob \<Rightarrow> cache \<Rightarrow> cache settled option" where
  "cachePut e key b store =
     (case cacheApi e of
        CachesAbsent \<Rightarrow> Some (Rejects ''caches is not defined'')
      | OpenRejects m \<Rightarrow> Some (Rejects m)
      | OpenNeverSettles \<Rightarrow> None
      | PutRejects m \<Rightarrow> Some (Rejects m)
      | PutNeverSettles \<Rightarrow> None
      | PutResolves \<Rightarrow>
          Some (Resolves (store(key \<mapsto>
            \<lparr>body = b,
             headers = [(''Content-Type'', ''image/png''), (''X-Cached-At'', isoCachedAt e),
                        (''Cache-Control'', ''public, max-age=86400'')]\<rparr>))))"

text \<open>
  \<open>cacheScreenshot\<close>: returns early without the Cache API; otherwise the \<open>catch\<close>
  logs the failure and the method resolves. It does not settle when a cache call does
  not.
\<close>

definition cacheScreenshot ::
  "attemptEnv \<Rightarrow> string \<Rightarrow> blob \<Rightarrow> cache \<Rightarrow> cache settled option" where
  "cacheScreenshot e key b store =
     (if cacheApi e = CachesAbsent then Some (Resolves store)
      else (case cachePut e key b store of
              None \<Rightarrow> None
            | Some (Resolves store1) \<Rightarrow> Some (Resolves store1)
            | Some (Rejects m) \<Rightarrow> Some (Resolves store)))"

subsection \<open>One attempt\<close>

text \<open>
  The \<open>try\<close> block of the loop, up to the point where the success record is built:
  the description thrown, or the trace collected, and the cache as the block leaves it.
  The outcome is \<open>None\<close> when \<open>await this.cacheScreenshot(...)\<close> never resumes; the
  attempt, and with it the run, then never completes.
\<close>

definition tryBlock ::
  "int \<Rightarrow> string \<Rightarrow> attemptEnv \<Rightarrow> cache \<Rightarrow> (string + string list) option \<times> cache" where
  "tryBlock timeoutMs key e store =
     (case withTimeout (captureWithSteps e) timeoutMs of
        Rejects m \<Rightarrow> (Some (Inl m), store)
      | Resolves (blob, steps0) \<Rightarrow>
          (case blob of
             None \<Rightarrow> (Some (Inl ''Screenshot blob is null - capture failed''), store)
           | Some b \<Rightarrow>
               (case cacheScreenshot e key b store of
                  None \<Rightarrow> (None, store)
                | Some (Rejects m) \<Rightarrow> (Some (Inl m), store)
                | Some (Resolves store1) \<Rightarrow>
                    (let steps1 = steps0 @ [''Step 6: Screenshot cached successfully'']
                     in case withTimeout (getDisplayMedia e) timeoutMs of
                          Rejects m \<Rightarrow> (Some (Inl m), store1)
                        | Resolves stream \<Rightarrow>
                            (case stream of
                               None \<Rightarrow> (Some (Inl ''Failed to get media stream''), store1)
                             | Some s \<Rightarrow>
                                 (case cloneAndMimic e (Some s) of
                                    Rejects m \<Rightarrow> (Some (Inl m), store1)
                                  | Resolves cloned \<Rightarrow>
                                      (Some (Inr (steps1 @
                                         [''Step 7: Stream cloned and action listeners attached''])),
                                       store1)))))))"

definition cacheKeyAt :: "int \<Rightarrow> string" where
  "cacheKeyAt now = ''/screenshot-'' @ toString now"

text \<open>
  The outcome of the block depends neither on the key nor on the cache contents; it is
  named here for the statements below, with the record that the loop appends for an
  outcome, and the records of the attempts of a list that have an outcome.
\<close>

definition attemptOutcome :: "int \<Rightarrow> attemptEnv \<Rightarrow> (string + string list) option" where
  "attemptOutcome timeoutMs e = fst (tryBlock timeoutMs [] e Map.empty)"

definition attemptRecord :: "attemptEnv \<Rightarrow> nat \<Rightarrow> string + string list \<Rightarrow> OrchestratorContextV2" where
  "attemptRecord e k x =
     (case x of
        Inr stepsDone \<Rightarrow>
          \<lparr>attempt = k, timestamp = isoTimestamp e, steps = stepsDone,
           cacheKey = cacheKeyAt (nowCacheKey e), success = True,
           durationMs = nowAttemptEnd e - nowAttemptStart e, error = None\<rparr>
      | Inl errorMsg \<Rightarrow>
          \<lparr>attempt = k, timestamp = isoTimestamp e, steps = [''Error: '' @ errorMsg],
           cacheKey = cacheKeyAt (nowCacheKey e), success = False,
           durationMs = nowAttemptEnd e - nowAttemptStart e, error = Some errorMsg\<rparr>)"

fun attemptRecords :: "int \<Rightarrow> runEnv \<Rightarrow> nat list \<Rightarrow> OrchestratorContextV2 list" where
  "attemptRecords timeoutMs env [] = []"
| "attemptRecords timeoutMs env (k # ks) =
     (case attemptOutcome timeoutMs (attempts env k) of
        None \<Rightarrow> attemptRecords timeoutMs env ks
      | Some x \<Rightarrow> attemptRecord (attempts env k) k x # attemptRecords timeoutMs env ks)"

definition countAttempt :: "world \<Rightarrow> world" where
  "countAttempt w =
     w\<lparr>this := (this w)\<lparr>metrics :=
          (metrics (this w))\<lparr>totalAttempts := totalAttempts (metrics (this w)) + 1\<rparr>\<rparr>\<rparr>"

definition countSuccess :: "world \<Rightarrow> world" where
  "countSuccess w =
     w\<lparr>this := (this w)\<lparr>metrics :=
          (metrics (this w))\<lparr>successfulAttempts := successfulAttempts (metrics (this w)) + 1\<rparr>\<rparr>\<rparr>"

definition pushContext :: "OrchestratorContextV2 \<Rightarrow> world \<Rightarrow> world" where
  "pushContext r w = w\<lparr>heap := push (context_ref (this w)) r (heap w)\<rparr>"

text \<open>\<open>await new Promise(resolve => setTimeout(resolve, delayMs))\<close>\<close>

definition sleep :: "number \<Rightarrow> world \<Rightarrow> world" where
  "sleep delayMs w = w\<lparr>timers := timers w @ [delayMs]\<rparr>"

subsection \<open>The attempt loop\<close>

text \<open>
  \<open>while (!success && retries < this.retryPolicy.maxRetries)\<close>, from the loop variables
  \<open>retries\<close> and \<open>success\<close>; the result is their final value and the world. A
  \<open>break\<close> leaves the loop with the variables as they are. The first component is
  \<open>None\<close> when the loop never ends because an attempt never completes; the world is
  then the one in which it is stuck.
\<close>

function runLoop :: "runEnv \<Rightarrow> nat \<Rightarrow> bool \<Rightarrow> world \<Rightarrow> bool option \<times> nat \<times> world" where
  "runLoop env retries ok w =
     (if \<not> ok \<and> int retries < maxRetries (retryPolicy (this w)) then
        (let retries1 = retries + 1;
             w1 = countAttempt w;
             e = attempts env retries1;
             attemptStartTime = nowAttemptStart e;
             ts = isoTimestamp e;
             key = cacheKeyAt (nowCacheKey e)
         in case tryBlock (operationTimeout (this w1)) key e (cacheStorage w1) of
              (None, store) \<Rightarrow> (None, retries1, w1\<lparr>cacheStorage := store\<rparr>)
            | (Some (Inr stepsDone), store) \<Rightarrow>
                (let w2 = pushContext
                            \<lparr>attempt = retries1, timestamp = ts, steps = stepsDone,
                             cacheKey = key, success = True,
                             durationMs = nowAttemptEnd e - attemptStartTime, error = None\<rparr>
                            (w1\<lparr>cacheStorage := store\<rparr>)
                 in runLoop env retries1 True (countSuccess w2))
            | (Some (Inl errorMsg), store) \<Rightarrow>
                (let w2 = pushContext
                            \<lparr>attempt = retries1, timestamp = ts,
                             steps = [''Error: '' @ errorMsg],
                             cacheKey = key, success = False,
                             durationMs = nowAttemptEnd e - attemptStartTime,
                             error = Some errorMsg\<rparr>
                            (w1\<lparr>cacheStorage := store\<rparr>)
                 in if isRetryableError errorMsg
                       \<and> int retries1 < maxRetries (retryPolicy (this w2))
                    then runLoop env retries1 False
                           (sleep (calculateDelay (arithmetic w2) (retryPolicy (this w2)) retries1
                                     (random e)) w2)
                    else if \<not> isRetryableError errorMsg then (Some False, retries1, w2)
                    else runLoop env retries1 False w2))
      else (Some ok, retries, w))"
  by pat_completeness auto
termination
  by (relation "measure (\<lambda>(env, retries, ok, w). nat (maxRetries (retryPolicy (this w)) - int retries))")
     (auto simp: countAttempt_def countSuccess_def pushContext_def sleep_def)

declare runLoop.simps [simp del]

text \<open>
  \<open>runFlow\<close>: \<open>Some\<close> of the value it returns, or \<open>None\<close> when it never returns; the
  statement after the loop is then not reached.
\<close>

definition runFlow :: "runEnv \<Rightarrow> world \<Rightarrow> bool option \<times> world" where
  "runFlow env w =
     (let startTime = nowStart env
      in case runLoop env 0 False w of
           (None, retries, w1) \<Rightarrow> (None, w1)
         | (Some ok, retries, w1) \<Rightarrow>
             (Some ok, w1\<lparr>this := (this w1)\<lparr>metrics :=
                            (metrics (this w1))\<lparr>totalTimeMs := nowEnd env - startTime\<rparr>\<rparr>\<rparr>))"

subsection \<open>Ledger accessors\<close>

record MetricsSnapshot = Metrics +
  successRate :: number
  avgTimePerAttemptMs :: number

definition getMetrics :: "world \<Rightarrow> MetricsSnapshot \<times> world" where
  "getMetrics w =
     (let m = metrics (this w);
          fl = roundToDouble (arithmetic w)
      in (\<lparr>totalAttempts = totalAttempts m,
           successfulAttempts = successfulAttempts m,
           totalTimeMs = totalTimeMs m,
           successRate =
             jsMultiply fl (jsDivide fl (real (successfulAttempts m)) (real (totalAttempts m)))
               (Finite 100),
           avgTimePerAttemptMs =
             jsDivide fl (real_of_int (totalTimeMs m)) (real (totalAttempts m))\<rparr>,
          w))"

definition getContext :: "world \<Rightarrow> ref \<times> world" where
  "getContext w = (case spread (context_ref (this w)) (heap w) of (a, h) \<Rightarrow> (a, w\<lparr>heap := h\<rparr>))"

definition clearContext :: "world \<Rightarrow> world" where
  "clearContext w =
     (case newArray [] (heap w) of
        (a, h) \<Rightarrow>
          w\<lparr>this := (this w)\<lparr>context_ref := a,
                 metrics := \<lparr>totalAttempts = 0, successfulAttempts = 0, totalTimeMs = 0\<rparr>\<rparr>,
            heap := h\<rparr>)"

definition getLastCacheKey :: "world \<Rightarrow> string option \<times> world" where
  "getLastCacheKey w =
     (let successful = filter success (history w)
      in ((if length successful > 0 then Some (cacheKey (successful ! (length successful - 1)))
           else None),
          w))"

section \<open>Orchestrator, the fixed-delay variant\<close>

record Orchestrator =
  context_ref_simple :: ref
  maxRetries_simple :: int

record world_simple =
  this_simple :: Orchestrator
  heap_simple :: "OrchestratorContext arrayHeap"
  cacheStorage_simple :: cache
  timers_simple :: "number list"
  arithmetic_simple :: hostArith

definition history_simple :: "world_simple \<Rightarrow> OrchestratorContext list" where
  "history_simple v = arrays (heap_simple v) (context_ref_simple (this_simple v))"

definition newOrchestrator :: world_simple where
  "newOrchestrator =
     \<lparr>this_simple = \<lparr>context_ref_simple = 0, maxRetries_simple = 3\<rparr>,
      heap_simple = \<lparr>arrays = (\<lambda>a. []), nextRef = 1\<rparr>,
      cacheStorage_simple = Map.empty,
      timers_simple = [],
      arithmetic_simple = exactArith\<rparr>"

definition setMaxRetries :: "int \<Rightarrow> world_simple \<Rightarrow> world_simple" where
  "setMaxRetries n v = v\<lparr>this_simple := (this_simple v)\<lparr>maxRetries_simple := n\<rparr>\<rparr>"









definition getContext_simple :: "world_simple \<Rightarrow> ref \<times> world_simple" where
  "getContext_simple v =
     (case spread (context_ref_simple (this_simple v)) (heap_simple v) of
        (a, h) \<Rightarrow> (a, v\<lparr>heap_simple := h\<rparr>))"

section \<open>Auxiliary notions for the statements\<close>

text \<open>
  The world after the record of attempt \<open>k\<close> with outcome \<open>x\<close> has been appended; the
  world in which the loop continues after a retryable failure of attempt \<open>k\<close> (it has
  slept if budget remains); and the world in which attempt \<open>k\<close> is stuck.
\<close>

definition afterAttempt :: "runEnv \<Rightarrow> nat \<Rightarrow> string + string list \<Rightarrow> world \<Rightarrow> world" where
  "afterAttempt env k x w =
     (let e = attempts env k; t = operationTimeout (this w)
      in pushContext (attemptRecord e k x)
           ((countAttempt w)\<lparr>cacheStorage :=
               snd (tryBlock t (cacheKeyAt (nowCacheKey e)) e (cacheStorage w))\<rparr>))"

definition nextWorld :: "runEnv \<Rightarrow> nat \<Rightarrow> string \<Rightarrow> world \<Rightarrow> world" where
  "nextWorld env k m w =
     (let w2 = afterAttempt env k (Inl m) w
      in if int k < maxRetries (retryPolicy (this w))
         then sleep (calculateDelay (arithmetic w) (retryPolicy (this w)) k
                       (random (attempts env k))) w2
         else w2)"

definition stuckWorld :: "runEnv \<Rightarrow> nat \<Rightarrow> world \<Rightarrow> world" where
  "stuckWorld env k w =
     (let e = attempts env k; t = operationTimeout (this w)
      in (countAttempt w)\<lparr>cacheStorage :=
            snd (tryBlock t (cacheKeyAt (nowCacheKey e)) e (cacheStorage w))\<rparr>)"




definition cacheSettles :: "attemptEnv \<Rightarrow> bool" where
  "cacheSettles e = (cacheApi e \<noteq> OpenNeverSettles \<and> cacheApi e \<noteq> PutNeverSettles)"


section \<open>Example environments\<close>

text \<open>
  An attempt in which every collaborator succeeds, and variations of it; a run
  environment that behaves the same in every attempt, with a clock that does not move
  between the attempts.
\<close>

definition okAttempt :: attemptEnv where
  "okAttempt =
     \<lparr>nowAttemptStart = 1000,
      isoTimestamp = ''2024-01-01T00:00:01.000Z'',
      nowCacheKey = 1000,
      captureWithSteps = Prompt (Resolves (Some [137, 80, 78, 71], [''Step 1: Request screen capture permission''])),
      cacheApi = PutResolves,
      isoCachedAt = ''2024-01-01T00:00:01.100Z'',
      getDisplayMedia = Prompt (Resolves (Some (MediaStream 1))),
      streamClone = Resolves (MediaStream 2),
      nowAttemptEnd = 1250,
      random = 3 / 4\<rparr>"

definition cacheFailingAttempt :: attemptEnv where
  "cacheFailingAttempt = okAttempt\<lparr>cacheApi := PutRejects ''QuotaExceededError''\<rparr>"

definition cacheHangingAttempt :: attemptEnv where
  "cacheHangingAttempt = okAttempt\<lparr>cacheApi := PutNeverSettles\<rparr>"

definition emptyCaptureAttempt :: attemptEnv where
  "emptyCaptureAttempt =
     okAttempt\<lparr>captureWithSteps :=
       Prompt (Resolves (None, [''Step 1: Request screen capture permission'',
                                  ''Error occurred: Permission denied'']))\<rparr>"

definition networkErrorAttempt :: attemptEnv where
  "networkErrorAttempt = okAttempt\<lparr>captureWithSteps := Prompt (Rejects ''Network error'')\<rparr>"

definition fatalErrorAttempt :: attemptEnv where
  "fatalErrorAttempt = okAttempt\<lparr>captureWithSteps := Prompt (Rejects ''Permission denied'')\<rparr>"

definition always :: "attemptEnv \<Rightarrow> runEnv" where
  "always e = \<lparr>nowStart = 900, attempts = (\<lambda>k. e), nowEnd = 9000\<rparr>"

text \<open>
  Network errors in every attempt while the clock read for the cache key advances by one
  millisecond per attempt; and an orchestrator whose policy has \<open>initialDelayMs = 0\<close>.
\<close>

definition tickingNetworkErrors :: runEnv where
  "tickingNetworkErrors =
     \<lparr>nowStart = 900,
      attempts = (\<lambda>k. networkErrorAttempt\<lparr>nowCacheKey := 1000 + int k\<rparr>),
      nowEnd = 9000\<rparr>"

definition zeroDelayOrchestrator :: world where
  "zeroDelayOrchestrator =
     setRetryPolicy \<lparr>maxRetries_opt = None, initialDelayMs_opt = Some 0, maxDelayMs_opt = None,
                     backoffMultiplier_opt = None\<rparr> newOrchestratorV2"

text \<open>The world after one run that succeeds at once.\<close>

definition oneSuccessWorld :: world where
  "oneSuccessWorld = snd (runFlow (always okAttempt) newOrchestratorV2)"



text \<open>
  A policy with \<open>initialDelayMs = 0\<close> and a budget large enough for the power to
  overflow.
\<close>

definition zeroInitialPolicy :: RetryPolicy where
  "zeroInitialPolicy =
     \<lparr>maxRetries = 2000, initialDelayMs = 0, maxDelayMs = 5000, backoffMultiplier = 2\<rparr>"

section \<open>The attempt loop, step by step\<close>

lemma cacheScreenshot_settles:
  "cacheSettles e \<Longrightarrow> \<exists>store1. cacheScreenshot e key b store = Some (Resolves store1)"
  by (cases "cacheApi e") (simp_all add: cacheScreenshot_def cachePut_def cacheSettles_def)

lemma cacheScreenshot_hangs:
  "\<not> cacheSettles e \<Longrightarrow> cacheScreenshot e key b store = None"
  by (cases "cacheApi e") (simp_all add: cacheScreenshot_def cachePut_def cacheSettles_def)

lemma tryBlock_fst: "fst (tryBlock t key e store) = attemptOutcome t e"
proof (cases "cacheSettles e")
  case True
  have a: "\<And>b. \<exists>s1. cacheScreenshot e key b store = Some (Resolves s1)"
    using cacheScreenshot_settles[OF True] by blast
  have b: "\<And>b. \<exists>s2. cacheScreenshot e [] b Map.empty = Some (Resolves s2)"
    using cacheScreenshot_settles[OF True] by blast
  show ?thesis
  proof (cases "withTimeout (captureWithSteps e) t")
    case (Rejects m)
    then show ?thesis by (simp add: attemptOutcome_def tryBlock_def)
  next
    case (Resolves p)
    obtain blob steps0 where p: "p = (blob, steps0)" by (cases p)
    show ?thesis
    proof (cases blob)
      case None
      then show ?thesis using Resolves p by (simp add: attemptOutcome_def tryBlock_def)
    next
      case (Some bl)
      obtain s1 where s1: "cacheScreenshot e key bl store = Some (Resolves s1)"
        using a by blast
      obtain s2 where s2: "cacheScreenshot e [] bl Map.empty = Some (Resolves s2)"
        using b by blast
      show ?thesis
        using Resolves p Some s1 s2
        by (simp add: attemptOutcome_def tryBlock_def Let_def
            split: settled.splits option.splits)
    qed
  qed
next
  case False
  have a: "\<And>key b store. cacheScreenshot e key b store = None"
    using cacheScreenshot_hangs[OF False] by blast
  show ?thesis
    by (simp add: attemptOutcome_def tryBlock_def a
        split: settled.splits option.splits prod.splits)
qed

lemma runLoop_done:
  "ok \<or> \<not> int r < maxRetries (retryPolicy (this w)) \<Longrightarrow> runLoop env r ok w = (Some ok, r, w)"
  by (subst runLoop.simps) auto

lemma this_simps [simp]:
  "this (countAttempt w) = (this w)\<lparr>metrics := (metrics (this w))\<lparr>totalAttempts := totalAttempts (metrics (this w)) + 1\<rparr>\<rparr>"
  "this (countSuccess w) = (this w)\<lparr>metrics := (metrics (this w))\<lparr>successfulAttempts := successfulAttempts (metrics (this w)) + 1\<rparr>\<rparr>"
  "this (pushContext rc w) = this w"
  "this (sleep d w) = this w"
  by (simp_all add: countAttempt_def countSuccess_def pushContext_def sleep_def)

lemma arithmetic_simps [simp]:
  "arithmetic (countAttempt w) = arithmetic w"
  "arithmetic (countSuccess w) = arithmetic w"
  "arithmetic (pushContext rc w) = arithmetic w"
  "arithmetic (sleep d w) = arithmetic w"
  by (simp_all add: countAttempt_def countSuccess_def pushContext_def sleep_def)

lemma tryBlock_at:
  assumes "attemptOutcome (operationTimeout (this w)) (attempts env k) = x"
  shows "\<exists>st. tryBlock (operationTimeout (this w)) (cacheKeyAt (nowCacheKey (attempts env k)))
               (attempts env k) (cacheStorage w) = (x, st)"
  using tryBlock_fst[of "operationTimeout (this w)" "cacheKeyAt (nowCacheKey (attempts env k))"
      "attempts env k" "cacheStorage w"] assms
  by (cases "tryBlock (operationTimeout (this w)) (cacheKeyAt (nowCacheKey (attempts env k)))
               (attempts env k) (cacheStorage w)") simp

lemma runLoop_step_success:
  assumes "\<not> ok" and "int r < maxRetries (retryPolicy (this w))"
    and "attemptOutcome (operationTimeout (this w)) (attempts env (Suc r)) = Some (Inr s)"
  shows "runLoop env r ok w = (Some True, Suc r, countSuccess (afterAttempt env (Suc r) (Inr s) w))"
proof -
  obtain st where tb: "tryBlock (operationTimeout (this w))
      (cacheKeyAt (nowCacheKey (attempts env (Suc r)))) (attempts env (Suc r)) (cacheStorage w)
        = (Some (Inr s), st)"
    using tryBlock_at[OF assms(3)] by blast
  have cs: "cacheStorage (countAttempt w) = cacheStorage w" by (simp add: countAttempt_def)
  show ?thesis
    using assms(1,2)
    by (subst runLoop.simps)
       (simp add: Let_def tb cs afterAttempt_def attemptRecord_def runLoop_done)
qed

lemma runLoop_step_fatal:
  assumes "\<not> ok" and "int r < maxRetries (retryPolicy (this w))"
    and "attemptOutcome (operationTimeout (this w)) (attempts env (Suc r)) = Some (Inl m)"
    and "\<not> isRetryableError m"
  shows "runLoop env r ok w = (Some False, Suc r, afterAttempt env (Suc r) (Inl m) w)"
proof -
  obtain st where tb: "tryBlock (operationTimeout (this w))
      (cacheKeyAt (nowCacheKey (attempts env (Suc r)))) (attempts env (Suc r)) (cacheStorage w)
        = (Some (Inl m), st)"
    using tryBlock_at[OF assms(3)] by blast
  have cs: "cacheStorage (countAttempt w) = cacheStorage w" by (simp add: countAttempt_def)
  show ?thesis
    using assms(1,2,4)
    by (subst runLoop.simps)
       (simp add: Let_def tb cs afterAttempt_def attemptRecord_def)
qed

lemma runLoop_step_retry:
  assumes "\<not> ok" and "int r < maxRetries (retryPolicy (this w))"
    and "attemptOutcome (operationTimeout (this w)) (attempts env (Suc r)) = Some (Inl m)"
    and "isRetryableError m"
  shows "runLoop env r ok w = runLoop env (Suc r) False (nextWorld env (Suc r) m w)"
proof -
  obtain st where tb: "tryBlock (operationTimeout (this w))
      (cacheKeyAt (nowCacheKey (attempts env (Suc r)))) (attempts env (Suc r)) (cacheStorage w)
        = (Some (Inl m), st)"
    using tryBlock_at[OF assms(3)] by blast
  have cs: "cacheStorage (countAttempt w) = cacheStorage w" by (simp add: countAttempt_def)
  show ?thesis
    using assms(1,2,4)
    by (subst runLoop.simps)
       (simp add: Let_def tb cs afterAttempt_def nextWorld_def attemptRecord_def)
qed

lemma runLoop_step_hang:
  assumes "\<not> ok" and "int r < maxRetries (retryPolicy (this w))"
    and "attemptOutcome (operationTimeout (this w)) (attempts env (Suc r)) = None"
  shows "runLoop env r ok w = (None, Suc r, stuckWorld env (Suc r) w)"
proof -
  obtain st where tb: "tryBlock (operationTimeout (this w))
      (cacheKeyAt (nowCacheKey (attempts env (Suc r)))) (attempts env (Suc r)) (cacheStorage w)
        = (None, st)"
    using tryBlock_at[OF assms(3)] by blast
  have cs: "cacheStorage (countAttempt w) = cacheStorage w" by (simp add: countAttempt_def)
  show ?thesis
    using assms(1,2)
    by (subst runLoop.simps)
       (simp add: Let_def tb cs stuckWorld_def)
qed

lemma this_afterAttempt [simp]:
  "this (afterAttempt env k x w) = (this w)\<lparr>metrics := (metrics (this w))\<lparr>totalAttempts := totalAttempts (metrics (this w)) + 1\<rparr>\<rparr>"
  by (simp add: afterAttempt_def Let_def countAttempt_def pushContext_def)

lemma this_nextWorld [simp]:
  "this (nextWorld env k m w) = (this w)\<lparr>metrics := (metrics (this w))\<lparr>totalAttempts := totalAttempts (metrics (this w)) + 1\<rparr>\<rparr>"
  by (simp add: nextWorld_def Let_def)

lemma this_stuckWorld [simp]:
  "this (stuckWorld env k w) = (this w)\<lparr>metrics := (metrics (this w))\<lparr>totalAttempts := totalAttempts (metrics (this w)) + 1\<rparr>\<rparr>"
  by (simp add: stuckWorld_def Let_def countAttempt_def)

lemma arithmetic_afterAttempt [simp]: "arithmetic (afterAttempt env k x w) = arithmetic w"
  by (simp add: afterAttempt_def Let_def countAttempt_def pushContext_def)

lemma arithmetic_nextWorld [simp]: "arithmetic (nextWorld env k m w) = arithmetic w"
  by (simp add: nextWorld_def Let_def)

lemma arithmetic_stuckWorld [simp]: "arithmetic (stuckWorld env k w) = arithmetic w"
  by (simp add: stuckWorld_def Let_def countAttempt_def)

lemma history_afterAttempt [simp]:
  "history (afterAttempt env k x w) = history w @ [attemptRecord (attempts env k) k x]"
  by (simp add: afterAttempt_def Let_def history_def countAttempt_def pushContext_def push_def)

lemma history_sleep [simp]: "history (sleep d w) = history w"
  by (simp add: history_def sleep_def)

lemma history_countSuccess [simp]: "history (countSuccess w) = history w"
  by (simp add: history_def countSuccess_def)

lemma history_nextWorld [simp]:
  "history (nextWorld env k m w) = history w @ [attemptRecord (attempts env k) k (Inl m)]"
  by (simp add: nextWorld_def Let_def)

lemma history_stuckWorld [simp]: "history (stuckWorld env k w) = history w"
  by (simp add: stuckWorld_def Let_def history_def countAttempt_def)

lemma timers_afterAttempt [simp]: "timers (afterAttempt env k x w) = timers w"
  by (simp add: afterAttempt_def Let_def countAttempt_def pushContext_def)

lemma timers_countSuccess [simp]: "timers (countSuccess w) = timers w"
  by (simp add: countSuccess_def)

lemma timers_stuckWorld [simp]: "timers (stuckWorld env k w) = timers w"
  by (simp add: stuckWorld_def Let_def countAttempt_def)

lemma timers_nextWorld [simp]:
  "timers (nextWorld env k m w) =
     (if int k < maxRetries (retryPolicy (this w))
      then timers w @ [calculateDelay (arithmetic w) (retryPolicy (this w)) k
                         (random (attempts env k))]
      else timers w)"
  by (simp add: nextWorld_def Let_def sleep_def)

lemma runLoop_cases_induct:
  fixes Q :: "nat \<Rightarrow> bool \<Rightarrow> world \<Rightarrow> bool option \<times> nat \<times> world \<Rightarrow> bool"
  assumes stop: "\<And>r ok w. ok \<or> \<not> int r < maxRetries (retryPolicy (this w)) \<Longrightarrow>
        Q r ok w (Some ok, r, w)"
    and succ: "\<And>r w s. int r < maxRetries (retryPolicy (this w)) \<Longrightarrow>
        attemptOutcome (operationTimeout (this w)) (attempts env (Suc r)) = Some (Inr s) \<Longrightarrow>
        Q r False w (Some True, Suc r, countSuccess (afterAttempt env (Suc r) (Inr s) w))"
    and fatal: "\<And>r w m. int r < maxRetries (retryPolicy (this w)) \<Longrightarrow>
        attemptOutcome (operationTimeout (this w)) (attempts env (Suc r)) = Some (Inl m) \<Longrightarrow>
        \<not> isRetryableError m \<Longrightarrow>
        Q r False w (Some False, Suc r, afterAttempt env (Suc r) (Inl m) w)"
    and hang: "\<And>r w. int r < maxRetries (retryPolicy (this w)) \<Longrightarrow>
        attemptOutcome (operationTimeout (this w)) (attempts env (Suc r)) = None \<Longrightarrow>
        Q r False w (None, Suc r, stuckWorld env (Suc r) w)"
    and retry: "\<And>r w m. int r < maxRetries (retryPolicy (this w)) \<Longrightarrow>
        attemptOutcome (operationTimeout (this w)) (attempts env (Suc r)) = Some (Inl m) \<Longrightarrow>
        isRetryableError m \<Longrightarrow>
        Q (Suc r) False (nextWorld env (Suc r) m w)
          (runLoop env (Suc r) False (nextWorld env (Suc r) m w)) \<Longrightarrow>
        Q r False w (runLoop env (Suc r) False (nextWorld env (Suc r) m w))"
  shows "Q r ok w (runLoop env r ok w)"
proof (induction "nat (maxRetries (retryPolicy (this w)) - int r)" arbitrary: r ok w)
  case 0
  then have "\<not> int r < maxRetries (retryPolicy (this w))" by simp
  then show ?case using stop[of ok r w] by (simp add: runLoop_done)
next
  case (Suc d)
  show ?case
  proof (cases "ok \<or> \<not> int r < maxRetries (retryPolicy (this w))")
    case True
    then show ?thesis using stop[of ok r w] by (simp add: runLoop_done)
  next
    case False
    then have nok: "\<not> ok" and lt: "int r < maxRetries (retryPolicy (this w))" by simp_all
    show ?thesis
    proof (cases "attemptOutcome (operationTimeout (this w)) (attempts env (Suc r))")
      case None
      show ?thesis using hang[OF lt None] runLoop_step_hang[OF nok lt None] nok by simp
    next
      case (Some x)
      show ?thesis
      proof (cases x)
        case (Inr s)
        have out: "attemptOutcome (operationTimeout (this w)) (attempts env (Suc r)) = Some (Inr s)"
          using Some Inr by simp
        show ?thesis using succ[OF lt out] runLoop_step_success[OF nok lt out] nok by simp
      next
        case (Inl m)
        have out: "attemptOutcome (operationTimeout (this w)) (attempts env (Suc r)) = Some (Inl m)"
          using Some Inl by simp
        show ?thesis
        proof (cases "isRetryableError m")
          case False
          show ?thesis
            using fatal[OF lt out False] runLoop_step_fatal[OF nok lt out False] nok by simp
        next
          case True
          have d: "d = nat (maxRetries (retryPolicy (this (nextWorld env (Suc r) m w))) - int (Suc r))"
            using Suc.hyps(2) by simp
          have "Q (Suc r) False (nextWorld env (Suc r) m w)
                  (runLoop env (Suc r) False (nextWorld env (Suc r) m w))"
            by (rule Suc.hyps(1)[OF d])
          from retry[OF lt out True this] show ?thesis
            using runLoop_step_retry[OF nok lt out True] nok by simp
        qed
      qed
    qed
  qed
qed

lemma attemptRecords_append:
  "attemptRecords t env (ks @ ls) = attemptRecords t env ks @ attemptRecords t env ls"
  by (induction ks) (auto split: option.splits)

lemma runLoop_history:
  "case runLoop env r ok w of (ok', n, w') \<Rightarrow>
     r \<le> n
     \<and> history w' = history w @ attemptRecords (operationTimeout (this w)) env [Suc r..<Suc n]
     \<and> context_ref (this w') = context_ref (this w)
     \<and> retryPolicy (this w') = retryPolicy (this w)
     \<and> operationTimeout (this w') = operationTimeout (this w)
     \<and> arithmetic w' = arithmetic w
     \<and> totalTimeMs (metrics (this w')) = totalTimeMs (metrics (this w))
     \<and> totalAttempts (metrics (this w')) = totalAttempts (metrics (this w)) + (n - r)
     \<and> successfulAttempts (metrics (this w')) =
         successfulAttempts (metrics (this w)) + (if ok' = Some True \<and> \<not> ok then 1 else 0)"
proof (rule runLoop_cases_induct [where Q = "\<lambda>r ok w res. case res of (ok', n, w') \<Rightarrow>
     r \<le> n
     \<and> history w' = history w @ attemptRecords (operationTimeout (this w)) env [Suc r..<Suc n]
     \<and> context_ref (this w') = context_ref (this w)
     \<and> retryPolicy (this w') = retryPolicy (this w)
     \<and> operationTimeout (this w') = operationTimeout (this w)
     \<and> arithmetic w' = arithmetic w
     \<and> totalTimeMs (metrics (this w')) = totalTimeMs (metrics (this w))
     \<and> totalAttempts (metrics (this w')) = totalAttempts (metrics (this w)) + (n - r)
     \<and> successfulAttempts (metrics (this w')) =
         successfulAttempts (metrics (this w)) + (if ok' = Some True \<and> \<not> ok then 1 else 0)"],
    goal_cases)
  case (1 r ok w)
  then show ?case by simp
next
  case (2 r w s)
  then show ?case by simp
next
  case (3 r w m)
  then show ?case by simp
next
  case (4 r w)
  then show ?case by simp
next
  case (5 r w m)
  have upt: "\<And>n. Suc r \<le> n \<Longrightarrow> [Suc r..<Suc n] = Suc r # [Suc (Suc r)..<Suc n]"
    by (intro upt_conv_Cons) simp
  show ?case using 5 by (auto split: prod.splits simp del: upt_Suc simp: upt)
qed

lemma runLoop_outcomes:
  "case runLoop env r ok w of (ok', n, w') \<Rightarrow>
     (\<forall>k. r < k \<and> k < n \<longrightarrow>
        (\<exists>m. attemptOutcome (operationTimeout (this w)) (attempts env k) = Some (Inl m)
            \<and> isRetryableError m))
     \<and> (ok' = Some True \<and> \<not> ok \<longrightarrow>
          r < n \<and> (\<exists>s. attemptOutcome (operationTimeout (this w)) (attempts env n) = Some (Inr s)))
     \<and> (ok' = Some False \<and> r < n \<longrightarrow>
          (\<exists>m. attemptOutcome (operationTimeout (this w)) (attempts env n) = Some (Inl m)
             \<and> (isRetryableError m \<longrightarrow> maxRetries (retryPolicy (this w)) \<le> int n)))
     \<and> (ok' = None \<longrightarrow>
          r < n \<and> attemptOutcome (operationTimeout (this w)) (attempts env n) = None)
     \<and> (\<not> ok \<and> int r < maxRetries (retryPolicy (this w)) \<longrightarrow> r < n)
     \<and> (r < n \<longrightarrow> int n \<le> maxRetries (retryPolicy (this w)))
     \<and> (ok \<longrightarrow> ok' = Some True)
     \<and> timers w' = timers w @
         map (\<lambda>k. calculateDelay (arithmetic w) (retryPolicy (this w)) k (random (attempts env k)))
           [Suc r..<n]"
proof (rule runLoop_cases_induct [where Q = "\<lambda>r ok w res. case res of (ok', n, w') \<Rightarrow>
     (\<forall>k. r < k \<and> k < n \<longrightarrow>
        (\<exists>m. attemptOutcome (operationTimeout (this w)) (attempts env k) = Some (Inl m)
            \<and> isRetryableError m))
     \<and> (ok' = Some True \<and> \<not> ok \<longrightarrow>
          r < n \<and> (\<exists>s. attemptOutcome (operationTimeout (this w)) (attempts env n) = Some (Inr s)))
     \<and> (ok' = Some False \<and> r < n \<longrightarrow>
          (\<exists>m. attemptOutcome (operationTimeout (this w)) (attempts env n) = Some (Inl m)
             \<and> (isRetryableError m \<longrightarrow> maxRetries (retryPolicy (this w)) \<le> int n)))
     \<and> (ok' = None \<longrightarrow>
          r < n \<and> attemptOutcome (operationTimeout (this w)) (attempts env n) = None)
     \<and> (\<not> ok \<and> int r < maxRetries (retryPolicy (this w)) \<longrightarrow> r < n)
     \<and> (r < n \<longrightarrow> int n \<le> maxRetries (retryPolicy (this w)))
     \<and> (ok \<longrightarrow> ok' = Some True)
     \<and> timers w' = timers w @
         map (\<lambda>k. calculateDelay (arithmetic w) (retryPolicy (this w)) k (random (attempts env k)))
           [Suc r..<n]"], goal_cases)
  case (1 r ok w)
  then show ?case by auto
next
  case (2 r w s)
  then show ?case by auto
next
  case (3 r w m)
  then show ?case by auto
next
  case (4 r w)
  then show ?case by auto
next
  case (5 r w m)
  obtain ok' n w' where res: "runLoop env (Suc r) False (nextWorld env (Suc r) m w) = (ok', n, w')"
    by (cases "runLoop env (Suc r) False (nextWorld env (Suc r) m w)") auto
  have le: "Suc r \<le> n"
    using runLoop_history[where env = env and r = "Suc r" and ok = False
        and w = "nextWorld env (Suc r) m w"] res by simp
  note ih = 5(4)[unfolded res, simplified]
  show ?case
  proof (cases "Suc r = n")
    case True
    then show ?thesis using ih 5(1,2,3) le unfolding res by auto
  next
    case False
    then have lt: "Suc r < n" using le by simp
    have "\<And>k. r < k \<Longrightarrow> k < n \<Longrightarrow>
        \<exists>m. attemptOutcome (operationTimeout (this w)) (attempts env k) = Some (Inl m)
           \<and> isRetryableError m"
    proof -
      fix k assume "r < k" "k < n"
      show "\<exists>m. attemptOutcome (operationTimeout (this w)) (attempts env k) = Some (Inl m)
           \<and> isRetryableError m"
      proof (cases "k = Suc r")
        case True then show ?thesis using 5(2,3) by simp
      next
        case False then show ?thesis using ih \<open>r < k\<close> \<open>k < n\<close> by auto
      qed
    qed
    moreover have "int (Suc r) < maxRetries (retryPolicy (this w))" using ih lt by auto
    ultimately show ?thesis using ih lt unfolding res by (auto simp: upt_conv_Cons)
  qed
qed

lemma runLoop_historyD:
  assumes "runLoop env r ok w = (ok', n, w')"
  shows "r \<le> n"
    and "history w' = history w @ attemptRecords (operationTimeout (this w)) env [Suc r..<Suc n]"
    and "context_ref (this w') = context_ref (this w)"
    and "retryPolicy (this w') = retryPolicy (this w)"
    and "operationTimeout (this w') = operationTimeout (this w)"
    and "totalTimeMs (metrics (this w')) = totalTimeMs (metrics (this w))"
    and "totalAttempts (metrics (this w')) = totalAttempts (metrics (this w)) + (n - r)"
    and "successfulAttempts (metrics (this w')) =
           successfulAttempts (metrics (this w)) + (if ok' = Some True \<and> \<not> ok then 1 else 0)"
    and "arithmetic w' = arithmetic w"
  using runLoop_history [where env = env and r = r and ok = ok and w = w] assms
  by (simp_all del: upt_Suc)

lemma runLoop_outcomesD:
  assumes "runLoop env r ok w = (ok', n, w')"
  shows "\<And>k. r < k \<Longrightarrow> k < n \<Longrightarrow>
           \<exists>m. attemptOutcome (operationTimeout (this w)) (attempts env k) = Some (Inl m)
               \<and> isRetryableError m"
    and "ok' = Some True \<Longrightarrow> \<not> ok \<Longrightarrow>
           r < n \<and> (\<exists>s. attemptOutcome (operationTimeout (this w)) (attempts env n) = Some (Inr s))"
    and "ok' = Some False \<Longrightarrow> r < n \<Longrightarrow>
           \<exists>m. attemptOutcome (operationTimeout (this w)) (attempts env n) = Some (Inl m)
               \<and> (isRetryableError m \<longrightarrow> maxRetries (retryPolicy (this w)) \<le> int n)"
    and "\<not> ok \<Longrightarrow> int r < maxRetries (retryPolicy (this w)) \<Longrightarrow> r < n"
    and "r < n \<Longrightarrow> int n \<le> maxRetries (retryPolicy (this w))"
    and "ok \<Longrightarrow> ok' = Some True"
    and "timers w' = timers w @
           map (\<lambda>k. calculateDelay (arithmetic w) (retryPolicy (this w)) k (random (attempts env k)))
             [Suc r..<n]"
    and "ok' = None \<Longrightarrow>
           r < n \<and> attemptOutcome (operationTimeout (this w)) (attempts env n) = None"
  using runLoop_outcomes [where env = env and r = r and ok = ok and w = w] assms
  by (simp_all del: upt_Suc)

lemma runFlow_via_loop:
  assumes "runLoop env 0 False w = (ok', n, w')"
  shows "fst (runFlow env w) = ok'"
    and "history (snd (runFlow env w)) = history w'"
    and "timers (snd (runFlow env w)) = timers w'"
    and "cacheStorage (snd (runFlow env w)) = cacheStorage w'"
    and "heap (snd (runFlow env w)) = heap w'"
    and "this (snd (runFlow env w)) =
           (case ok' of
              None \<Rightarrow> this w'
            | Some b \<Rightarrow> (this w')\<lparr>metrics :=
                           (metrics (this w'))\<lparr>totalTimeMs := nowEnd env - nowStart env\<rparr>\<rparr>)"
    and "arithmetic (snd (runFlow env w)) = arithmetic w'"
  using assms by (cases ok'; simp add: runFlow_def Let_def history_def)+

section \<open>Decimal rendering is injective\<close>

lemma digit_cases: "d < (10::nat) \<Longrightarrow> d = 0 \<or> d = 1 \<or> d = 2 \<or> d = 3 \<or> d = 4 \<or> d = 5 \<or> d = 6 \<or> d = 7 \<or> d = 8 \<or> d = 9"
  by arith

lemma digitChar_inj:
  assumes "d < 10" and "d' < 10" and "digitChar d = digitChar d'"
  shows "d = d'"
  using digit_cases[OF assms(1)] digit_cases[OF assms(2)] assms(3)
  by (elim disjE) (simp_all add: digitChar_def)

lemma digitChar_not_minus: "d < 10 \<Longrightarrow> digitChar d \<noteq> CHR ''-''"
  using digit_cases[of d] by (auto simp: digitChar_def)

lemma decimal_nonempty: "decimal n \<noteq> []"
  by (subst decimal.simps) simp

lemma hd_decimal: "hd (decimal n) \<noteq> CHR ''-''"
proof (induction n rule: decimal.induct)
  case (1 n)
  show ?case
  proof (cases "n < 10")
    case True
    then show ?thesis by (subst decimal.simps) (simp add: digitChar_not_minus)
  next
    case False
    then show ?thesis using 1 decimal_nonempty[of "n div 10"]
      by (subst decimal.simps) simp
  qed
qed

lemma decimal_inj: "decimal a = decimal b \<Longrightarrow> a = b"
proof (induction a arbitrary: b rule: decimal.induct)
  case (1 a)
  show ?case
  proof (cases "a < 10")
    case a: True
    show ?thesis
    proof (cases "b < 10")
      case True
      then show ?thesis using a "1.prems" digitChar_inj[of a b]
        by (simp add: decimal.simps[of a] decimal.simps[of b])
    next
      case False
      then show ?thesis using a "1.prems" decimal_nonempty[of "b div 10"]
        by (simp add: decimal.simps[of a] decimal.simps[of b])
    qed
  next
    case a: False
    show ?thesis
    proof (cases "b < 10")
      case True
      then show ?thesis using a "1.prems" decimal_nonempty[of "a div 10"]
        by (simp add: decimal.simps[of a] decimal.simps[of b])
    next
      case False
      have eq: "decimal (a div 10) @ [digitChar (a mod 10)] = decimal (b div 10) @ [digitChar (b mod 10)]"
        using a False "1.prems" by (simp add: decimal.simps[of a] decimal.simps[of b])
      then have "decimal (a div 10) = decimal (b div 10)" and dc: "digitChar (a mod 10) = digitChar (b mod 10)"
        by simp_all
      then have "a div 10 = b div 10" using "1.IH"[OF a] by simp
      moreover have "a mod 10 = b mod 10" using dc digitChar_inj[of "a mod 10" "b mod 10"] by simp
      ultimately show ?thesis by (metis div_mult_mod_eq)
    qed
  qed
qed

lemma toString_inj: "toString i = toString j \<Longrightarrow> i = j"
proof -
  assume eq: "toString i = toString j"
  have neg: "\<And>n m. CHR ''-'' # decimal n \<noteq> decimal m"
    using hd_decimal by (metis list.sel(1))
  show "i = j"
  proof (cases "i < 0")
    case i: True
    show ?thesis
    proof (cases "j < 0")
      case True
      then have "nat (- i) = nat (- j)" using eq i decimal_inj by (simp add: toString_def)
      then show ?thesis using i True by simp
    next
      case False
      then show ?thesis using eq i neg by (simp add: toString_def)
    qed
  next
    case i: False
    show ?thesis
    proof (cases "j < 0")
      case True
      then show ?thesis using eq i neg[of "nat (- j)" "nat i"] by (simp add: toString_def)
    next
      case False
      then have "nat i = nat j" using eq i decimal_inj by (simp add: toString_def)
      then show ?thesis using i False by simp
    qed
  qed
qed

lemma cacheKeyAt_inj: "cacheKeyAt a = cacheKeyAt b \<longleftrightarrow> a = b"
  using toString_inj by (auto simp: cacheKeyAt_def)

section \<open>The example environments evaluated\<close>

lemma classify_network: "isRetryableError ''Network error''"
  by code_simp

lemma classify_permission: "\<not> isRetryableError ''Permission denied''"
  by code_simp

lemma classify_null_blob: "\<not> isRetryableError ''Screenshot blob is null - capture failed''"
  by code_simp

lemma outcome_ok:
  "attemptOutcome t okAttempt = Some (Inr [''Step 1: Request screen capture permission'', ''Step 6: Screenshot cached successfully'', ''Step 7: Stream cloned and action listeners attached''])"
  by (simp add: attemptOutcome_def tryBlock_def okAttempt_def withTimeout_def cacheScreenshot_def cachePut_def cloneAndMimic_def)

lemma outcome_cacheFailing:
  "attemptOutcome t cacheFailingAttempt = Some (Inr [''Step 1: Request screen capture permission'', ''Step 6: Screenshot cached successfully'', ''Step 7: Stream cloned and action listeners attached''])"
  by (simp add: attemptOutcome_def tryBlock_def okAttempt_def cacheFailingAttempt_def withTimeout_def cacheScreenshot_def cachePut_def cloneAndMimic_def)

lemma outcome_cacheHanging: "attemptOutcome t cacheHangingAttempt = None"
  by (simp add: attemptOutcome_def tryBlock_def okAttempt_def cacheHangingAttempt_def withTimeout_def cacheScreenshot_def cachePut_def)

lemma outcome_emptyCapture:
  "attemptOutcome t emptyCaptureAttempt = Some (Inl ''Screenshot blob is null - capture failed'')"
  by (simp add: attemptOutcome_def tryBlock_def okAttempt_def emptyCaptureAttempt_def withTimeout_def)

lemma outcome_networkError:
  "attemptOutcome t networkErrorAttempt = Some (Inl ''Network error'')"
  by (simp add: attemptOutcome_def tryBlock_def okAttempt_def networkErrorAttempt_def withTimeout_def)

lemma outcome_fatalError:
  "attemptOutcome t fatalErrorAttempt = Some (Inl ''Permission denied'')"
  by (simp add: attemptOutcome_def tryBlock_def okAttempt_def fatalErrorAttempt_def withTimeout_def)

lemma attempts_always [simp]: "attempts (always e) k = e"
  by (simp add: always_def)

lemma history_new [simp]: "history newOrchestratorV2 = []"
  by (simp add: history_def newOrchestratorV2_def)

lemma this_new [simp]:
  "retryPolicy (this newOrchestratorV2) = defaultRetryPolicy"
  "operationTimeout (this newOrchestratorV2) = 30000"
  "metrics (this newOrchestratorV2) = \<lparr>totalAttempts = 0, successfulAttempts = 0, totalTimeMs = 0\<rparr>"
  "context_ref (this newOrchestratorV2) = 0"
  "timers newOrchestratorV2 = []"
  "cacheStorage newOrchestratorV2 = Map.empty"
  "arithmetic newOrchestratorV2 = exactArith"
  by (simp_all add: newOrchestratorV2_def)

lemma cacheScreenshot_failing:
  "cacheApi e = CachesAbsent \<or> (\<exists>m. cacheApi e = OpenRejects m) \<or> (\<exists>m. cacheApi e = PutRejects m)
     \<Longrightarrow> cacheScreenshot e key b store = Some (Resolves store)"
  by (cases "cacheApi e") (simp_all add: cacheScreenshot_def cachePut_def)

lemma cacheStorage_afterAttempt [simp]:
  "cacheStorage (afterAttempt env k x w) =
     snd (tryBlock (operationTimeout (this w)) (cacheKeyAt (nowCacheKey (attempts env k)))
            (attempts env k) (cacheStorage w))"
  by (simp add: afterAttempt_def Let_def pushContext_def)

lemma cacheStorage_countSuccess [simp]: "cacheStorage (countSuccess w) = cacheStorage w"
  by (simp add: countSuccess_def)

lemma outcome_empty_capture:
  "captureWithSteps e = Prompt (Resolves (None, steps0)) \<Longrightarrow>
     attemptOutcome t e = Some (Inl ''Screenshot blob is null - capture failed'')"
  by (simp add: attemptOutcome_def tryBlock_def withTimeout_def)

lemma outcome_Inr_steps:
  assumes "attemptOutcome t e = Some (Inr s)"
  shows "\<exists>steps0. s = steps0 @ [''Step 6: Screenshot cached successfully'',
                               ''Step 7: Stream cloned and action listeners attached'']"
  using assms unfolding attemptOutcome_def tryBlock_def
  by (auto split: settled.splits option.splits prod.splits simp: Let_def)

lemma attemptRecord_Inl:
  "attemptRecord e k (Inl m) =
       \<lparr>attempt = k, timestamp = isoTimestamp e, steps = [''Error: '' @ m],
        cacheKey = cacheKeyAt (nowCacheKey e), success = False,
        durationMs = nowAttemptEnd e - nowAttemptStart e,
        error = Some m\<rparr>"
  by (simp add: attemptRecord_def)

lemma attemptRecord_Inr:
  "attemptRecord e k (Inr s) =
       \<lparr>attempt = k, timestamp = isoTimestamp e, steps = s,
        cacheKey = cacheKeyAt (nowCacheKey e), success = True,
        durationMs = nowAttemptEnd e - nowAttemptStart e,
        error = None\<rparr>"
  by (simp add: attemptRecord_def)

lemma cacheKey_attemptRecord [simp]:
  "cacheKey (attemptRecord e k x) = cacheKeyAt (nowCacheKey e)"
  by (cases x) (simp_all add: attemptRecord_def)

lemma attempt_attemptRecord [simp]: "attempt (attemptRecord e k x) = k"
  by (cases x) (simp_all add: attemptRecord_def)

lemma success_attemptRecord [simp]:
  "success (attemptRecord e k (Inl m)) = False"
  "success (attemptRecord e k (Inr s)) = True"
  by (simp_all add: attemptRecord_def)

lemma attemptRecords_settled:
  assumes "\<forall>k\<in>set ks. \<exists>x. attemptOutcome t (attempts env k) = Some x"
  shows "attemptRecords t env ks =
           map (\<lambda>k. attemptRecord (attempts env k) k (the (attemptOutcome t (attempts env k)))) ks"
  using assms by (induction ks) auto

lemma attemptRecords_snoc_None:
  "attemptOutcome t (attempts env n) = None \<Longrightarrow>
     attemptRecords t env (ks @ [n]) = attemptRecords t env ks"
  by (simp add: attemptRecords_append)

lemma attemptRecords_snoc_Some:
  "attemptOutcome t (attempts env n) = Some x \<Longrightarrow>
     attemptRecords t env (ks @ [n]) = attemptRecords t env ks @ [attemptRecord (attempts env n) n x]"
  by (simp add: attemptRecords_append)

text \<open>
  The records appended by the loop: one for each attempt started, except for an attempt
  that is stuck.
\<close>

lemma runLoop_records:
  assumes res: "runLoop env 0 False w = (ok', n, w')"
  shows "\<exists>rs. history w' = history w @ rs
          \<and> length rs = (if ok' = None then n - 1 else n)
          \<and> map attempt rs = [1..<Suc (length rs)]
          \<and> map cacheKey rs = map (\<lambda>k. cacheKeyAt (nowCacheKey (attempts env k))) [1..<Suc (length rs)]
          \<and> map success rs = map (\<lambda>k. ok' = Some True \<and> k = n) [1..<Suc (length rs)]"
proof -
  let ?t = "operationTimeout (this w)"
  let ?rec = "\<lambda>k. attemptRecord (attempts env k) k (the (attemptOutcome ?t (attempts env k)))"
  note H = runLoop_historyD[OF res]
  note O = runLoop_outcomesD[OF res]
  have before: "\<forall>k\<in>set [Suc 0..<n]. \<exists>x. attemptOutcome ?t (attempts env k) = Some x"
  proof
    fix k assume "k \<in> set [Suc 0..<n]"
    then have "0 < k" "k < n" by simp_all
    from O(1)[OF this] show "\<exists>x. attemptOutcome ?t (attempts env k) = Some x" by blast
  qed
  have early: "attemptRecords ?t env [Suc 0..<n] = map ?rec [Suc 0..<n]"
    by (rule attemptRecords_settled[OF before])
  have fail: "\<And>k. k \<in> set [Suc 0..<n] \<Longrightarrow> \<not> success (?rec k)"
  proof -
    fix k assume "k \<in> set [Suc 0..<n]"
    then obtain m where "attemptOutcome ?t (attempts env k) = Some (Inl m)" using O(1)[of k] by auto
    then show "\<not> success (?rec k)" by simp
  qed
  have sE: "map success (map ?rec [Suc 0..<n]) = map (\<lambda>k. ok' = Some True \<and> k = n) [Suc 0..<n]"
    unfolding map_map by (rule map_cong[OF refl]) (use fail in auto)
  have aE: "map attempt (map ?rec [Suc 0..<n]) = [Suc 0..<n]"
    unfolding map_map by (simp add: comp_def)
  have kE: "map cacheKey (map ?rec [Suc 0..<n]) = map (\<lambda>k. cacheKeyAt (nowCacheKey (attempts env k))) [Suc 0..<n]"
    unfolding map_map by (simp add: comp_def)
  show ?thesis
  proof (cases "n = 0")
    case True
    then show ?thesis using H(2) O(8) by auto
  next
    case False
    then have n: "0 < n" by simp
    have split: "[Suc 0..<Suc n] = [Suc 0..<n] @ [n]" using n by simp
    show ?thesis
    proof (cases ok')
      case None
      have out: "attemptOutcome ?t (attempts env n) = None" using O(8)[OF None] by simp
      have h: "history w' = history w @ map ?rec [Suc 0..<n]"
        using H(2) unfolding split attemptRecords_snoc_None[OF out] early .
      let ?rs = "map ?rec [Suc 0..<n]"
      have len: "length ?rs = n - 1" by simp
      have up: "[1..<Suc (length ?rs)] = [Suc 0..<n]" unfolding len using n by simp
      have "map attempt ?rs = [1..<Suc (length ?rs)]"
        unfolding up using aE by simp
      moreover have "map cacheKey ?rs = map (\<lambda>k. cacheKeyAt (nowCacheKey (attempts env k))) [1..<Suc (length ?rs)]"
        unfolding up using kE by simp
      moreover have "map success ?rs = map (\<lambda>k. ok' = Some True \<and> k = n) [1..<Suc (length ?rs)]"
        unfolding up using sE by simp
      moreover have "length ?rs = (if ok' = None then n - 1 else n)" using len None by simp
      ultimately show ?thesis using h by (intro exI[of _ ?rs] conjI)
    next
      case (Some b)
      obtain x where out: "attemptOutcome ?t (attempts env n) = Some x"
        and sx: "success (attemptRecord (attempts env n) n x) = b"
      proof (cases b)
        case True
        then obtain s where "attemptOutcome ?t (attempts env n) = Some (Inr s)"
          using O(2) Some by auto
        then show ?thesis using that True by simp
      next
        case False
        then obtain m where "attemptOutcome ?t (attempts env n) = Some (Inl m)"
          using O(3) Some n by auto
        then show ?thesis using that False by simp
      qed
      let ?rs = "map ?rec [Suc 0..<n] @ [attemptRecord (attempts env n) n x]"
      have h: "history w' = history w @ ?rs"
        using H(2) unfolding split attemptRecords_snoc_Some[OF out] early by simp
      have len: "length ?rs = n" using n by simp
      have up: "[1..<Suc (length ?rs)] = [Suc 0..<n] @ [n]" unfolding len using split by simp
      have "map attempt ?rs = [1..<Suc (length ?rs)]"
        unfolding up using aE by simp
      moreover have "map cacheKey ?rs = map (\<lambda>k. cacheKeyAt (nowCacheKey (attempts env k))) [1..<Suc (length ?rs)]"
        unfolding up using kE by simp
      moreover have "map success ?rs = map (\<lambda>k. ok' = Some True \<and> k = n) [1..<Suc (length ?rs)]"
        unfolding up using sE sx Some by simp
      moreover have "length ?rs = (if ok' = None then n - 1 else n)" using len Some by simp
      ultimately show ?thesis using h by (intro exI[of _ ?rs] conjI)
    qed
  qed
qed

lemma all_network_errors_run:
  assumes pol: "maxRetries (retryPolicy (this w)) = 3"
    and out: "\<And>k. attemptOutcome (operationTimeout (this w)) (attempts env k) = Some (Inl ''Network error'')"
  shows "runLoop env 0 False w =
           (Some False, 3, nextWorld env 3 ''Network error''
              (nextWorld env 2 ''Network error'' (nextWorld env 1 ''Network error'' w)))"
proof -
  let ?m = "''Network error''"
  let ?w1 = "nextWorld env 1 ?m w"
  let ?w2 = "nextWorld env 2 ?m ?w1"
  let ?w3 = "nextWorld env 3 ?m ?w2"
  have s1: "runLoop env 0 False w = runLoop env (Suc 0) False (nextWorld env (Suc 0) ?m w)"
    by (rule runLoop_step_retry[OF _ _ out classify_network]) (simp_all add: pol)
  have s2: "runLoop env (Suc 0) False ?w1 = runLoop env (Suc (Suc 0)) False (nextWorld env (Suc (Suc 0)) ?m ?w1)"
    by (rule runLoop_step_retry[OF _ _ _ classify_network]) (simp_all add: pol out)
  have s3: "runLoop env (Suc (Suc 0)) False ?w2 = runLoop env (Suc (Suc (Suc 0))) False (nextWorld env (Suc (Suc (Suc 0))) ?m ?w2)"
    by (rule runLoop_step_retry[OF _ _ _ classify_network]) (simp_all add: pol out)
  have s4: "runLoop env 3 False ?w3 = (Some False, 3, ?w3)"
    by (rule runLoop_done) (simp add: pol)
  have n: "Suc (Suc 0) = 2" "Suc (Suc (Suc 0)) = 3" by simp_all
  show ?thesis using s1 s2 s3 s4 by (simp add: n)
qed

lemma cacheKeyAt_1000: "cacheKeyAt 1000 = ''/screenshot-1000''"
  by (simp add: cacheKeyAt_def toString_def decimal.simps digitChar_def)

lemma run_okAttempt:
  "runLoop (always okAttempt) 0 False newOrchestratorV2 =
     (Some True, Suc 0, countSuccess (afterAttempt (always okAttempt) (Suc 0)
        (Inr [''Step 1: Request screen capture permission'',
              ''Step 6: Screenshot cached successfully'',
              ''Step 7: Stream cloned and action listeners attached'']) newOrchestratorV2))"
  by (rule runLoop_step_success) (simp_all add: defaultRetryPolicy_def outcome_ok)

lemma history_oneSuccessWorld:
  "history oneSuccessWorld =
     [\<lparr>attempt = 1, timestamp = ''2024-01-01T00:00:01.000Z'',
       steps = [''Step 1: Request screen capture permission'',
                ''Step 6: Screenshot cached successfully'',
                ''Step 7: Stream cloned and action listeners attached''],
       cacheKey = ''/screenshot-1000'', success = True, durationMs = 250, error = None\<rparr>]"
proof -
  have rec: "attemptRecord okAttempt (Suc 0)
       (Inr [''Step 1: Request screen capture permission'',
             ''Step 6: Screenshot cached successfully'',
             ''Step 7: Stream cloned and action listeners attached'']) =
     \<lparr>attempt = 1, timestamp = ''2024-01-01T00:00:01.000Z'',
       steps = [''Step 1: Request screen capture permission'',
                ''Step 6: Screenshot cached successfully'',
                ''Step 7: Stream cloned and action listeners attached''],
       cacheKey = ''/screenshot-1000'', success = True, durationMs = 250, error = None\<rparr>"
    unfolding attemptRecord_Inr by (simp add: cacheKeyAt_1000 okAttempt_def)
  show ?thesis
    unfolding oneSuccessWorld_def runFlow_via_loop(2)[OF run_okAttempt]
    by (simp add: rec)
qed

text \<open>A run whose first attempt waits for a \<open>cache.put\<close> that never settles does not return.\<close>

lemma hanging_cache_run:
  "fst (runFlow (always cacheHangingAttempt) newOrchestratorV2) = None"
proof -
  have "runLoop (always cacheHangingAttempt) 0 False newOrchestratorV2 =
      (None, Suc 0, stuckWorld (always cacheHangingAttempt) (Suc 0) newOrchestratorV2)"
    by (rule runLoop_step_hang) (simp_all add: defaultRetryPolicy_def outcome_cacheHanging)
  then show ?thesis by (rule runFlow_via_loop(1))
qed

section \<open>Allocation of the history array\<close>

lemma heap_afterAttempt:
  "nextRef (heap (afterAttempt env k x w)) = nextRef (heap w)"
  by (simp add: afterAttempt_def Let_def pushContext_def push_def countAttempt_def)

lemma heap_nextWorld:
  "nextRef (heap (nextWorld env k m w)) = nextRef (heap w)"
  by (simp add: nextWorld_def Let_def sleep_def heap_afterAttempt)

lemma heap_stuckWorld:
  "nextRef (heap (stuckWorld env k w)) = nextRef (heap w)"
  by (simp add: stuckWorld_def Let_def countAttempt_def)

lemma runLoop_nextRef:
  "case runLoop env r ok w of (ok', n, w') \<Rightarrow> nextRef (heap w') = nextRef (heap w)"
proof (rule runLoop_cases_induct [where Q = "\<lambda>r ok w res. case res of (ok', n, w') \<Rightarrow>
     nextRef (heap w') = nextRef (heap w)"], goal_cases)
  case (1 r ok w)
  then show ?case by simp
next
  case (2 r w s)
  then show ?case by (simp add: countSuccess_def heap_afterAttempt)
next
  case (3 r w m)
  then show ?case by (simp add: heap_afterAttempt)
next
  case (4 r w)
  then show ?case by (simp add: heap_stuckWorld)
next
  case (5 r w m)
  then show ?case by (auto split: prod.splits simp: heap_nextWorld)
qed

lemma allocated_new: "allocated newOrchestratorV2"
  by (simp add: allocated_def newOrchestratorV2_def)

lemma allocated_clearContext: "allocated (clearContext w)"
  by (simp add: allocated_def clearContext_def newArray_def)

lemma allocated_runFlow: "allocated w \<Longrightarrow> allocated (snd (runFlow env w))"
proof -
  assume a: "allocated w"
  obtain ok' n w' where res: "runLoop env 0 False w = (ok', n, w')"
    by (cases "runLoop env 0 False w") auto
  have "nextRef (heap w') = nextRef (heap w)"
    using runLoop_nextRef[where env = env and r = 0 and ok = False and w = w] res by simp
  then show ?thesis
    using a runFlow_via_loop(5,6)[OF res] runLoop_historyD(3)[OF res]
    by (cases ok') (simp_all add: allocated_def)
qed

lemma allocated_getContext: "allocated w \<Longrightarrow> allocated (snd (getContext w))"
  by (simp add: allocated_def getContext_def spread_def newArray_def)

section \<open>Properties of a run\<close>

text \<open>
  C1: under a policy with \<open>maxRetries = N\<close>, \<open>N \<ge> 1\<close>, and an environment in which
  every attempt from 1 to \<open>N\<close> fails with a description classified as retryable,
  \<open>runFlow\<close> returns failure, counts exactly \<open>N\<close> attempts and appends exactly \<open>N\<close>
  records, numbered 1 to \<open>N\<close>, each a failure with a retryable description and none
  marked as success.
\<close>

theorem exhaustion_terminates:
  assumes "maxRetries (retryPolicy (this w)) = int N" and "1 \<le> N"
    and "\<forall>k\<in>{1..N}. \<exists>m. attemptOutcome (operationTimeout (this w)) (attempts env k) = Some (Inl m)
                          \<and> isRetryableError m"
  shows "fst (runFlow env w) = Some False
    \<and> (\<exists>rs. history (snd (runFlow env w)) = history w @ rs
          \<and> length rs = N
          \<and> map attempt rs = [1..<Suc N]
          \<and> (\<forall>r\<in>set rs. \<not> success r \<and> (\<exists>m. error r = Some m \<and> isRetryableError m)))
    \<and> totalAttempts (metrics (this (snd (runFlow env w)))) = totalAttempts (metrics (this w)) + N
    \<and> successfulAttempts (metrics (this (snd (runFlow env w)))) = successfulAttempts (metrics (this w))"
proof -
  let ?t = "operationTimeout (this w)"
  obtain ok' n w' where res: "runLoop env 0 False w = (ok', n, w')"
    by (cases "runLoop env 0 False w") auto
  note H = runLoop_historyD[OF res]
  note O = runLoop_outcomesD[OF res]
  have n_pos: "0 < n" using O(4) assms(1,2) by simp
  have n_le: "n \<le> N" using O(5)[OF n_pos] assms(1) by simp
  have all: "\<And>k. 1 \<le> k \<Longrightarrow> k \<le> N \<Longrightarrow> \<exists>m. attemptOutcome ?t (attempts env k) = Some (Inl m) \<and> isRetryableError m"
    using assms(3) by simp
  obtain m' where m': "attemptOutcome ?t (attempts env n) = Some (Inl m')" "isRetryableError m'"
    using all[of n] n_pos n_le by auto
  have nok: "ok' = Some False"
  proof (cases ok')
    case None
    then show ?thesis using O(8) m' by simp
  next
    case (Some b)
    show ?thesis
    proof (cases b)
      case True
      then obtain s where "attemptOutcome ?t (attempts env n) = Some (Inr s)" using O(2) Some by auto
      then show ?thesis using m' by simp
    next
      case False
      then show ?thesis using Some by simp
    qed
  qed
  have n_eq: "n = N"
  proof -
    obtain m where m: "attemptOutcome ?t (attempts env n) = Some (Inl m)" "isRetryableError m \<longrightarrow> int N \<le> int n"
      using O(3)[OF nok n_pos] assms(1) by auto
    then show ?thesis using m' n_le by simp
  qed
  let ?rec = "\<lambda>k. attemptRecord (attempts env k) k (the (attemptOutcome ?t (attempts env k)))"
  let ?rs = "map ?rec [1..<Suc N]"
  have settled: "\<forall>k\<in>set [1..<Suc N]. \<exists>x. attemptOutcome ?t (attempts env k) = Some x"
  proof
    fix k assume "k \<in> set [1..<Suc N]"
    then have "1 \<le> k" "k \<le> N" by (simp_all del: upt_Suc)
    from all[OF this] show "\<exists>x. attemptOutcome ?t (attempts env k) = Some x" by blast
  qed
  have recs: "attemptRecords ?t env [1..<Suc N] = ?rs"
    by (rule attemptRecords_settled[OF settled])
  have rec: "\<And>k. 1 \<le> k \<Longrightarrow> k \<le> N \<Longrightarrow> attempt (?rec k) = k \<and> \<not> success (?rec k)
       \<and> (\<exists>m. error (?rec k) = Some m \<and> isRetryableError m)"
  proof -
    fix k assume "1 \<le> k" "k \<le> N"
    then obtain m where "attemptOutcome ?t (attempts env k) = Some (Inl m)" "isRetryableError m" using all by blast
    then show "attempt (?rec k) = k \<and> \<not> success (?rec k)
       \<and> (\<exists>m. error (?rec k) = Some m \<and> isRetryableError m)"
      by (simp add: attemptRecord_def)
  qed
  have a: "history (snd (runFlow env w)) = history w @ ?rs"
    using runFlow_via_loop(2)[OF res] H(2) n_eq recs by (simp del: upt_Suc)
  have b: "length ?rs = N" by simp
  have c: "map attempt ?rs = [1..<Suc N]"
  proof -
    have "map (attempt \<circ> ?rec) [1..<Suc N] = map id [1..<Suc N]"
      by (rule map_cong[OF refl]) (use rec in auto)
    then show ?thesis by (simp del: upt_Suc)
  qed
  have d: "\<forall>r\<in>set ?rs. \<not> success r \<and> (\<exists>m. error r = Some m \<and> isRetryableError m)"
    using rec by (auto simp del: upt_Suc)
  have e: "fst (runFlow env w) = Some False" using runFlow_via_loop(1)[OF res] nok by simp
  have f: "totalAttempts (metrics (this (snd (runFlow env w)))) = totalAttempts (metrics (this w)) + N"
    "successfulAttempts (metrics (this (snd (runFlow env w)))) = successfulAttempts (metrics (this w))"
    using runFlow_via_loop(6)[OF res] H(7,8) n_eq nok by simp_all
  have "\<exists>rs. history (snd (runFlow env w)) = history w @ rs
          \<and> length rs = N
          \<and> map attempt rs = [1..<Suc N]
          \<and> (\<forall>r\<in>set rs. \<not> success r \<and> (\<exists>m. error r = Some m \<and> isRetryableError m))"
    using a b c d by (intro exI[of _ ?rs] conjI)
  then show ?thesis using e f by simp
qed

theorem exhaustion_terminates_witness:
  "fst (runFlow (always networkErrorAttempt) newOrchestratorV2) = Some False
   \<and> length (history (snd (runFlow (always networkErrorAttempt) newOrchestratorV2))) = 3
   \<and> totalAttempts (metrics (this (snd (runFlow (always networkErrorAttempt) newOrchestratorV2)))) = 3"
  using exhaustion_terminates [of newOrchestratorV2 3 "always networkErrorAttempt"]
  by (auto simp: defaultRetryPolicy_def outcome_networkError classify_network)

text \<open>
  C2: when at least one attempt is allowed and the first attempt fails with a description
  that matches no retryable marker, \<open>runFlow\<close> returns failure after appending exactly
  one record, a failure carrying that description; one attempt is counted and no retry
  timer is awaited, whatever budget remains.
\<close>

theorem fatal_short_circuits:
  assumes "1 \<le> maxRetries (retryPolicy (this w))"
    and "attemptOutcome (operationTimeout (this w)) (attempts env 1) = Some (Inl m)"
    and "\<not> isRetryableError m"
  shows "fst (runFlow env w) = Some False
    \<and> history (snd (runFlow env w)) = history w @ [attemptRecord (attempts env 1) 1 (Inl m)]
    \<and> success (attemptRecord (attempts env 1) 1 (Inl m)) = False
    \<and> error (attemptRecord (attempts env 1) 1 (Inl m)) = Some m
    \<and> totalAttempts (metrics (this (snd (runFlow env w)))) = totalAttempts (metrics (this w)) + 1
    \<and> timers (snd (runFlow env w)) = timers w"
proof -
  have lt: "int 0 < maxRetries (retryPolicy (this w))" using assms(1) by simp
  have out: "attemptOutcome (operationTimeout (this w)) (attempts env (Suc 0)) = Some (Inl m)"
    using assms(2) by simp
  have res: "runLoop env 0 False w = (Some False, Suc 0, afterAttempt env (Suc 0) (Inl m) w)"
    by (rule runLoop_step_fatal[OF _ lt out assms(3)]) simp
  show ?thesis
    using runFlow_via_loop[OF res] by (simp add: attemptRecord_def)
qed

theorem fatal_short_circuits_witness:
  "fst (runFlow (always fatalErrorAttempt) newOrchestratorV2) = Some False
   \<and> map error (history (snd (runFlow (always fatalErrorAttempt) newOrchestratorV2))) = [Some ''Permission denied'']
   \<and> totalAttempts (metrics (this (snd (runFlow (always fatalErrorAttempt) newOrchestratorV2)))) = 1
   \<and> maxRetries (retryPolicy (this newOrchestratorV2)) = 3"
  using fatal_short_circuits [of newOrchestratorV2 "always fatalErrorAttempt" "''Permission denied''"]
  by (simp add: defaultRetryPolicy_def outcome_fatalError classify_permission)

text \<open>
  C3: when the cache adapter fails to store during the first attempt (the Cache API is
  absent, or \<open>caches.open\<close> or \<open>cache.put\<close> rejects) while capture, media
  acquisition and stream clone succeed, \<open>cacheScreenshot\<close> still resolves, leaving the
  cache as it was, and \<open>runFlow\<close> returns success with a success record appended.
\<close>

theorem cache_failure_invisible:
  assumes "1 \<le> maxRetries (retryPolicy (this w))"
    and "cacheApi (attempts env 1) = CachesAbsent
         \<or> (\<exists>m. cacheApi (attempts env 1) = OpenRejects m)
         \<or> (\<exists>m. cacheApi (attempts env 1) = PutRejects m)"
    and "captureWithSteps (attempts env 1) = Prompt (Resolves (Some b, steps0))"
    and "getDisplayMedia (attempts env 1) = Prompt (Resolves (Some s))"
    and "streamClone (attempts env 1) = Resolves c"
  shows "cacheScreenshot (attempts env 1) key b store = Some (Resolves store)
    \<and> fst (runFlow env w) = Some True
    \<and> history (snd (runFlow env w)) = history w @
         [attemptRecord (attempts env 1) 1
            (Inr (steps0 @ [''Step 6: Screenshot cached successfully'',
                            ''Step 7: Stream cloned and action listeners attached'']))]
    \<and> success (last (history (snd (runFlow env w)))) = True
    \<and> error (last (history (snd (runFlow env w)))) = None
    \<and> successfulAttempts (metrics (this (snd (runFlow env w)))) = successfulAttempts (metrics (this w)) + 1
    \<and> cacheStorage (snd (runFlow env w)) = cacheStorage w"
proof -
  let ?t = "operationTimeout (this w)"
  let ?e = "attempts env 1"
  let ?s = "steps0 @ [''Step 6: Screenshot cached successfully'', ''Step 7: Stream cloned and action listeners attached'']"
  have cs: "\<And>key store. cacheScreenshot ?e key b store = Some (Resolves store)"
    using cacheScreenshot_failing[OF assms(2)] .
  have tb: "\<And>key store. tryBlock ?t key ?e store = (Some (Inr ?s), store)"
    using assms(3,4,5) cs by (simp add: tryBlock_def withTimeout_def cloneAndMimic_def)
  have out: "attemptOutcome ?t (attempts env (Suc 0)) = Some (Inr ?s)"
    using tb by (simp add: attemptOutcome_def)
  have lt: "int 0 < maxRetries (retryPolicy (this w))" using assms(1) by simp
  have res: "runLoop env 0 False w = (Some True, Suc 0, countSuccess (afterAttempt env (Suc 0) (Inr ?s) w))"
    by (rule runLoop_step_success[OF _ lt out]) simp
  show ?thesis
    using runFlow_via_loop[OF res] cs tb by (simp add: attemptRecord_def)
qed

theorem cache_failure_invisible_witness:
  "fst (runFlow (always cacheFailingAttempt) newOrchestratorV2) = Some True
   \<and> map success (history (snd (runFlow (always cacheFailingAttempt) newOrchestratorV2))) = [True]
   \<and> cacheStorage (snd (runFlow (always cacheFailingAttempt) newOrchestratorV2)) = Map.empty"
  using cache_failure_invisible [of newOrchestratorV2 "always cacheFailingAttempt" "[137, 80, 78, 71]"
      "[''Step 1: Request screen capture permission'']" "MediaStream 1" "MediaStream 2"]
  by (simp add: defaultRetryPolicy_def cacheFailingAttempt_def okAttempt_def)

text \<open>
  C6, as the code has it: when the capture provider resolves with no blob, the attempt
  fails with the description \<open>Screenshot blob is null - capture failed\<close>. That
  description matches no retryable marker, so the classifier takes it as fatal: the run
  appends one failure record and stops without awaiting a retry timer, whatever budget
  remains.
\<close>

theorem empty_capture_is_fatal:
  assumes "1 \<le> maxRetries (retryPolicy (this w))"
    and "captureWithSteps (attempts env 1) = Prompt (Resolves (None, steps0))"
  shows "attemptOutcome (operationTimeout (this w)) (attempts env 1)
           = Some (Inl ''Screenshot blob is null - capture failed'')
    \<and> isRetryableError ''Screenshot blob is null - capture failed'' = False
    \<and> fst (runFlow env w) = Some False
    \<and> history (snd (runFlow env w)) = history w @
         [attemptRecord (attempts env 1) 1 (Inl ''Screenshot blob is null - capture failed'')]
    \<and> error (last (history (snd (runFlow env w))))
         = Some ''Screenshot blob is null - capture failed''
    \<and> totalAttempts (metrics (this (snd (runFlow env w)))) = totalAttempts (metrics (this w)) + 1
    \<and> timers (snd (runFlow env w)) = timers w"
proof -
  have lt: "int 0 < maxRetries (retryPolicy (this w))" using assms(1) by simp
  have out: "attemptOutcome (operationTimeout (this w)) (attempts env (Suc 0))
      = Some (Inl ''Screenshot blob is null - capture failed'')"
    using outcome_empty_capture assms(2) by simp
  have res: "runLoop env 0 False w = (Some False, Suc 0,
      afterAttempt env (Suc 0) (Inl ''Screenshot blob is null - capture failed'') w)"
    by (rule runLoop_step_fatal[OF _ lt out classify_null_blob]) simp
  show ?thesis
    using runFlow_via_loop[OF res] out classify_null_blob by (simp add: attemptRecord_Inl)
qed

theorem empty_capture_is_fatal_witness:
  "fst (runFlow (always emptyCaptureAttempt) newOrchestratorV2) = Some False
   \<and> length (history (snd (runFlow (always emptyCaptureAttempt) newOrchestratorV2))) = 1
   \<and> timers (snd (runFlow (always emptyCaptureAttempt) newOrchestratorV2)) = []"
  using empty_capture_is_fatal [of newOrchestratorV2 "always emptyCaptureAttempt"
      "[''Step 1: Request screen capture permission'', ''Error occurred: Permission denied'']"]
  by (simp add: defaultRetryPolicy_def emptyCaptureAttempt_def okAttempt_def)

text \<open>
  With the default budget of three attempts, an empty capture on the first attempt ends
  the run after one record and without a retry.
\<close>

theorem empty_capture_not_retried:
  "maxRetries (retryPolicy (this newOrchestratorV2)) = 3
   \<and> map error (history (snd (runFlow (always emptyCaptureAttempt) newOrchestratorV2)))
       = [Some ''Screenshot blob is null - capture failed'']
   \<and> \<not> isRetryableError ''Screenshot blob is null - capture failed''
   \<and> timers (snd (runFlow (always emptyCaptureAttempt) newOrchestratorV2)) = []
   \<and> fst (runFlow (always emptyCaptureAttempt) newOrchestratorV2) = Some False"
proof -
  let ?env = "always emptyCaptureAttempt"
  have lt: "int 0 < maxRetries (retryPolicy (this newOrchestratorV2))"
    by (simp add: defaultRetryPolicy_def)
  have out: "attemptOutcome (operationTimeout (this newOrchestratorV2)) (attempts ?env (Suc 0))
      = Some (Inl ''Screenshot blob is null - capture failed'')"
    by (simp add: outcome_emptyCapture)
  have res: "runLoop ?env 0 False newOrchestratorV2 = (Some False, Suc 0,
      afterAttempt ?env (Suc 0) (Inl ''Screenshot blob is null - capture failed'') newOrchestratorV2)"
    by (rule runLoop_step_fatal[OF _ lt out classify_null_blob]) simp
  show ?thesis
    using runFlow_via_loop[OF res] out classify_null_blob
    by (simp add: attemptRecord_Inl defaultRetryPolicy_def)
qed

text \<open>
  C7, as the code has it: whenever \<open>runFlow\<close> returns success, the last record of the
  history is the success record and its steps contain the line
  \<open>Step 6: Screenshot cached successfully\<close>, whatever the cache adapter did; the line
  is pushed after \<open>cacheScreenshot\<close> returns, and that method reports nothing.
\<close>

theorem success_record_has_cached_line:
  assumes "fst (runFlow env w) = Some True"
  shows "history (snd (runFlow env w)) \<noteq> []
    \<and> success (last (history (snd (runFlow env w))))
    \<and> ''Step 6: Screenshot cached successfully'' \<in> set (steps (last (history (snd (runFlow env w)))))"
proof -
  let ?t = "operationTimeout (this w)"
  obtain ok' n w' where res: "runLoop env 0 False w = (ok', n, w')"
    by (cases "runLoop env 0 False w") auto
  have ok': "ok' = Some True" using assms runFlow_via_loop(1)[OF res] by simp
  obtain s where n: "0 < n" and s: "attemptOutcome ?t (attempts env n) = Some (Inr s)"
    using runLoop_outcomesD(2)[OF res ok'] by auto
  have "[Suc 0..<Suc n] = [Suc 0..<n] @ [n]" using n by simp
  then have h: "history (snd (runFlow env w)) =
      (history w @ attemptRecords ?t env [Suc 0..<n]) @ [attemptRecord (attempts env n) n (Inr s)]"
    using runFlow_via_loop(2)[OF res] runLoop_historyD(2)[OF res] attemptRecords_snoc_Some[OF s]
    by (simp del: upt_Suc)
  have l: "last (history (snd (runFlow env w))) = attemptRecord (attempts env n) n (Inr s)"
    unfolding h by simp
  obtain steps0 where "s = steps0 @ [''Step 6: Screenshot cached successfully'',
                               ''Step 7: Stream cloned and action listeners attached'']"
    using outcome_Inr_steps[OF s] by blast
  then show ?thesis unfolding l using h by (simp add: attemptRecord_Inr)
qed

theorem success_record_has_cached_line_witness:
  "''Step 6: Screenshot cached successfully''
     \<in> set (steps (last (history (snd (runFlow (always okAttempt) newOrchestratorV2)))))
   \<and> fst (runFlow (always okAttempt) newOrchestratorV2) = Some True"
proof -
  have ok: "fst (runFlow (always okAttempt) newOrchestratorV2) = Some True"
    using runFlow_via_loop(1)[OF run_okAttempt] by simp
  show ?thesis using success_record_has_cached_line[OF ok] ok by simp
qed

text \<open>
  A run in which \<open>cache.put\<close> rejects: nothing is stored, and the success record still
  carries the line.
\<close>

theorem cached_line_despite_cache_failure:
  "cachePut cacheFailingAttempt ''/screenshot-1000'' [137, 80, 78, 71] Map.empty
     = Some (Rejects ''QuotaExceededError'')
   \<and> map success (history (snd (runFlow (always cacheFailingAttempt) newOrchestratorV2))) = [True]
   \<and> ''Step 6: Screenshot cached successfully''
     \<in> set (steps (last (history (snd (runFlow (always cacheFailingAttempt) newOrchestratorV2)))))
   \<and> cacheStorage (snd (runFlow (always cacheFailingAttempt) newOrchestratorV2)) = Map.empty"
proof -
  let ?env = "always cacheFailingAttempt"
  have lt: "int 0 < maxRetries (retryPolicy (this newOrchestratorV2))"
    by (simp add: defaultRetryPolicy_def)
  let ?s = "[''Step 1: Request screen capture permission'', ''Step 6: Screenshot cached successfully'', ''Step 7: Stream cloned and action listeners attached'']"
  have out: "attemptOutcome (operationTimeout (this newOrchestratorV2)) (attempts ?env (Suc 0)) = Some (Inr ?s)"
    by (simp add: outcome_cacheFailing)
  have res: "runLoop ?env 0 False newOrchestratorV2 = (Some True, Suc 0, countSuccess (afterAttempt ?env (Suc 0) (Inr ?s) newOrchestratorV2))"
    by (rule runLoop_step_success[OF _ lt out]) simp
  have tb: "\<And>key. snd (tryBlock 30000 key cacheFailingAttempt Map.empty) = Map.empty"
    by (simp add: tryBlock_def cacheFailingAttempt_def okAttempt_def withTimeout_def
        cacheScreenshot_def cachePut_def cloneAndMimic_def)
  have cp: "cachePut cacheFailingAttempt ''/screenshot-1000'' [137, 80, 78, 71] Map.empty = Some (Rejects ''QuotaExceededError'')"
    by (simp add: cachePut_def cacheFailingAttempt_def okAttempt_def)
  show ?thesis
    using runFlow_via_loop[OF res] cp tb by (simp add: attemptRecord_Inr)
qed

text \<open>
  C8, as the code has it: the cache key of an attempt is \<open>/screenshot-\<close> followed by the
  clock reading taken for it, and nothing else. If the readings taken for the attempts
  that the budget allows are pairwise different, the keys of the records appended by a
  run are pairwise different.
\<close>

theorem cache_keys_distinct_when_clock_differs:
  assumes "inj_on (\<lambda>k. nowCacheKey (attempts env k))
             {k. 1 \<le> k \<and> int k \<le> maxRetries (retryPolicy (this w))}"
  shows "\<exists>rs. history (snd (runFlow env w)) = history w @ rs
          \<and> map cacheKey rs = map (\<lambda>k. cacheKeyAt (nowCacheKey (attempts env k))) [1..<Suc (length rs)]
          \<and> distinct (map cacheKey rs)"
proof -
  let ?t = "operationTimeout (this w)"
  let ?A = "{k. 1 \<le> k \<and> int k \<le> maxRetries (retryPolicy (this w))}"
  obtain ok' n w' where res: "runLoop env 0 False w = (ok', n, w')"
    by (cases "runLoop env 0 False w") auto
  obtain rs where h0: "history w' = history w @ rs"
    and len: "length rs = (if ok' = None then n - 1 else n)"
    and keys0: "map cacheKey rs = map (\<lambda>k. cacheKeyAt (nowCacheKey (attempts env k))) [1..<Suc (length rs)]"
    using runLoop_records[OF res] by blast
  have h: "history (snd (runFlow env w)) = history w @ rs"
    using runFlow_via_loop(2)[OF res] h0 by simp
  have lenle: "length rs \<le> n" using len by (simp split: if_splits)
  have sub: "\<And>k. k \<in> set [1..<Suc (length rs)] \<Longrightarrow> k \<in> ?A"
  proof -
    fix k assume k: "k \<in> set [1..<Suc (length rs)]"
    then have kn: "1 \<le> k" "k \<le> n" using lenle by (simp_all del: upt_Suc)
    then have "0 < n" by simp
    then have "int n \<le> maxRetries (retryPolicy (this w))" by (rule runLoop_outcomesD(5)[OF res])
    then show "k \<in> ?A" using kn by simp
  qed
  have inj: "inj_on (\<lambda>k. cacheKeyAt (nowCacheKey (attempts env k))) (set [1..<Suc (length rs)])"
  proof (rule inj_onI)
    fix a b
    assume a: "a \<in> set [1..<Suc (length rs)]" and b: "b \<in> set [1..<Suc (length rs)]"
      and eq: "cacheKeyAt (nowCacheKey (attempts env a)) = cacheKeyAt (nowCacheKey (attempts env b))"
    have "nowCacheKey (attempts env a) = nowCacheKey (attempts env b)"
      using eq cacheKeyAt_inj by blast
    then show "a = b" using inj_onD[OF assms _ sub[OF a] sub[OF b]] by blast
  qed
  have d: "distinct (map cacheKey rs)"
    unfolding keys0 distinct_map using inj by (simp del: upt_Suc)
  show ?thesis using h keys0 d by blast
qed

theorem cache_keys_distinct_when_clock_differs_witness:
  "distinct (map cacheKey (history (snd (runFlow tickingNetworkErrors newOrchestratorV2))))"
proof -
  have inj: "inj_on (\<lambda>k. nowCacheKey (attempts tickingNetworkErrors k))
             {k. 1 \<le> k \<and> int k \<le> maxRetries (retryPolicy (this newOrchestratorV2))}"
    by (simp add: inj_on_def tickingNetworkErrors_def)
  show ?thesis
    using cache_keys_distinct_when_clock_differs[OF inj] by auto
qed

text \<open>
  With \<open>initialDelayMs = 0\<close> the retry timers are 0 ms; when the clock reads the same
  millisecond for each attempt, the three attempts of a run share one key.
\<close>

theorem cache_keys_collide_on_frozen_clock:
  "initialDelayMs (retryPolicy (this zeroDelayOrchestrator)) = 0
   \<and> map cacheKey (history (snd (runFlow (always networkErrorAttempt) zeroDelayOrchestrator)))
       = [''/screenshot-1000'', ''/screenshot-1000'', ''/screenshot-1000'']
   \<and> map attempt (history (snd (runFlow (always networkErrorAttempt) zeroDelayOrchestrator)))
       = [1, 2, 3]
   \<and> timers (snd (runFlow (always networkErrorAttempt) zeroDelayOrchestrator)) = [Finite 0, Finite 0]"
proof -
  let ?env = "always networkErrorAttempt"
  let ?w = zeroDelayOrchestrator
  have pol: "retryPolicy (this ?w) = \<lparr>maxRetries = 3, initialDelayMs = 0, maxDelayMs = 5000, backoffMultiplier = 2\<rparr>"
    by (simp add: zeroDelayOrchestrator_def setRetryPolicy_def defaultRetryPolicy_def)
  have hist: "history ?w = []" "timers ?w = []" "arithmetic ?w = exactArith"
    by (simp_all add: zeroDelayOrchestrator_def setRetryPolicy_def history_def newOrchestratorV2_def)
  have res: "runLoop ?env 0 False ?w = (Some False, 3,
      nextWorld ?env 3 ''Network error'' (nextWorld ?env 2 ''Network error'' (nextWorld ?env 1 ''Network error'' ?w)))"
    by (rule all_network_errors_run) (simp_all add: pol outcome_networkError)
  have key: "nowCacheKey networkErrorAttempt = 1000"
    by (simp add: networkErrorAttempt_def okAttempt_def)
  show ?thesis
    using runFlow_via_loop(2,3)[OF res]
    by (simp add: pol hist key cacheKeyAt_1000 calculateDelay_def exactArith_def mathMin_def
        jsSubtract_def Let_def)
qed

section \<open>The two variants side by side\<close>
























section \<open>Properties of the backoff calculator\<close>

lemma roundsLikeDoubleD:
  assumes "roundsLikeDouble fl"
  shows "fl x \<noteq> NaN"
    and "x \<le> y \<Longrightarrow> leNum (fl x) (fl y)"
    and "fl x = Finite z \<Longrightarrow> fl z = Finite z"
    and "fl (- x) = negNum (fl x)"
    and "fl 0 = Finite 0" and "fl 1 = Finite 1" and "fl 2 = Finite 2"
  using assms unfolding roundsLikeDouble_def by blast+

lemma roundsLikeDouble_exact: "roundsLikeDouble (roundToDouble exactArith)"
  by (simp add: roundsLikeDouble_def exactArith_def)

lemma roundsLikeDouble_overflowing: "roundsLikeDouble (roundToDouble overflowingArith)"
proof -
  define B :: real where "B = 2 ^ 1024"
  have "(2::real) ^ 1 < 2 ^ 1024" by (rule power_strict_increasing) simp_all
  then have B: "2 < B" unfolding B_def by simp
  have fl: "roundToDouble overflowingArith =
      (\<lambda>x. if B \<le> x then PosInfinity else if x \<le> - B then NegInfinity else Finite x)"
    unfolding B_def by (simp add: overflowingArith_def overflowRound_def fun_eq_iff)
  show ?thesis
    unfolding fl roundsLikeDouble_def using B by auto
qed

lemma overflowing_pow: "mathPow overflowingArith 2 1025 = PosInfinity"
proof -
  have "(2::real) ^ 1024 \<le> 2 ^ 1025" by (rule power_increasing) simp_all
  then show ?thesis by (simp add: overflowingArith_def overflowRound_def)
qed

lemma overflowing_5000: "roundToDouble overflowingArith 5000 = Finite 5000"
proof -
  have "(2::real) ^ 13 \<le> 2 ^ 1024" by (rule power_increasing) simp_all
  then have "(5000::real) < 2 ^ 1024" by simp
  then show ?thesis by (simp add: overflowingArith_def overflowRound_def)
qed

text \<open>A value between two doubles rounds to a double between them.\<close>

lemma round_between:
  assumes "roundsLikeDouble fl" and "a \<le> x" and "x \<le> b"
    and "fl a = Finite a'" and "fl b = Finite b'"
  shows "\<exists>y. fl x = Finite y \<and> a' \<le> y \<and> y \<le> b'"
proof -
  have m: "leNum (fl a) (fl x)" "leNum (fl x) (fl b)"
    using roundsLikeDoubleD(2)[OF assms(1)] assms(2,3) by blast+
  have "fl x \<noteq> NaN" using roundsLikeDoubleD(1)[OF assms(1)] .
  then show ?thesis using m assms(4,5) by (cases "fl x") auto
qed

text \<open>The jitter step on a finite base \<open>e\<close> between 0 and the double \<open>M\<close>.\<close>

lemma jitter_bounds:
  assumes r: "roundsLikeDouble fl"
    and e0: "0 \<le> e" and eM: "e \<le> M" and fe: "fl e = Finite e" and fM: "fl M = Finite M"
    and r0: "0 \<le> rnd" and r1: "rnd < 1"
  shows "\<exists>y. jsAdd fl (Finite e)
               (jsMultiply fl (jsMultiply fl (Finite e) (fl (2 / 10)))
                  (jsSubtract fl (jsMultiply fl (Finite rnd) (Finite 2)) (Finite 1))) = y
           \<and> y \<noteq> NaN \<and> leNum (Finite 0) y
           \<and> leNum y (jsAdd fl (Finite M) (jsMultiply fl (Finite M) (fl (2 / 10))))"
proof -
  note D = roundsLikeDoubleD[OF r]
  obtain c0 where c0: "fl (2 / 10) = Finite c0" "0 \<le> c0" "c0 \<le> 1"
    using round_between[OF r _ _ D(5) D(6), of "2 / 10"] by auto
  have ec: "0 \<le> e * c0" "e * c0 \<le> e"
    using e0 c0(2,3) by (simp_all add: mult_left_le)
  obtain t1 where t1: "fl (e * c0) = Finite t1" "0 \<le> t1" "t1 \<le> e"
    using round_between[OF r ec D(5) fe] by auto
  have ru: "0 \<le> rnd * 2" "rnd * 2 \<le> 2" using r0 r1 by simp_all
  obtain u where u: "fl (rnd * 2) = Finite u" "0 \<le> u" "u \<le> 2"
    using round_between[OF r ru D(5) D(7)] by auto
  have fm1: "fl (- 1) = Finite (- 1)" using D(4)[of 1] D(6) by simp
  have u1: "- 1 \<le> u + - 1" "u + - 1 \<le> 1" using u(2,3) by simp_all
  obtain t2 where t2: "fl (u + - 1) = Finite t2" "- 1 \<le> t2" "t2 \<le> 1"
    using round_between[OF r u1 fm1 D(6)] by auto
  have ft1: "fl t1 = Finite t1" using D(3)[OF t1(1)] .
  have fmt1: "fl (- t1) = Finite (- t1)" using D(4)[of t1] ft1 by simp
  have abs2: "\<bar>t2\<bar> \<le> 1" using t2(2,3) by simp
  have "\<bar>t1 * t2\<bar> \<le> t1 * 1"
    unfolding abs_mult using t1(2) abs2 by (intro mult_mono) simp_all
  then have tt: "- t1 \<le> t1 * t2" "t1 * t2 \<le> t1" by simp_all
  obtain j where j: "fl (t1 * t2) = Finite j" "- t1 \<le> j" "j \<le> t1"
    using round_between[OF r tt fmt1 ft1] by auto
  have Mc: "0 \<le> M * c0" "M * c0 \<le> M"
    using e0 eM c0(2,3) by (simp_all add: mult_left_le)
  obtain tM where tM: "fl (M * c0) = Finite tM" "0 \<le> tM"
    using round_between[OF r Mc D(5) fM] by auto
  have "e * c0 \<le> M * c0" using eM c0(2) by (simp add: mult_right_mono)
  then have "leNum (fl (e * c0)) (fl (M * c0))" by (rule D(2))
  then have t1M: "t1 \<le> tM" using t1(1) tM(1) by simp
  let ?y = "fl (e + j)"
  have val: "jsAdd fl (Finite e)
               (jsMultiply fl (jsMultiply fl (Finite e) (fl (2 / 10)))
                  (jsSubtract fl (jsMultiply fl (Finite rnd) (Finite 2)) (Finite 1))) = ?y"
  proof -
    have c0': "fl (1 / 5) = Finite c0" using c0(1) by simp
    have t2': "fl (u - 1) = Finite t2" using t2(1) by simp
    show ?thesis by (simp add: c0' t1(1) u(1) t2' j(1) jsSubtract_def)
  qed
  have bound: "jsAdd fl (Finite M) (jsMultiply fl (Finite M) (fl (2 / 10))) = fl (M + tM)"
  proof -
    have c0': "fl (1 / 5) = Finite c0" using c0(1) by simp
    show ?thesis by (simp add: c0' tM(1))
  qed
  have nn: "?y \<noteq> NaN" by (rule D(1))
  have "0 \<le> e + j" using j(2) t1(3) by simp
  then have "leNum (fl 0) ?y" by (rule D(2))
  then have lo: "leNum (Finite 0) ?y" using D(5) by simp
  have "e + j \<le> M + tM" using eM j(3) t1M by simp
  then have hi: "leNum ?y (fl (M + tM))" by (rule D(2))
  show ?thesis using val bound nn lo hi by simp
qed

text \<open>
  C5, as the code has it. Let \<open>i \<ge> 1\<close>, let the policy have
  \<open>0 \<le> initialDelayMs \<le> maxDelayMs\<close> and \<open>backoffMultiplier > 1\<close>, with
  \<open>maxDelayMs\<close> a double, let the random value be in \<open>[0, 1)\<close>, and let the engine
  round like double arithmetic and its \<open>Math.pow\<close> yield, for this base and exponent, a
  number that is not negative (\<open>Infinity\<close> included). Then the delay is \<open>NaN\<close> exactly
  when \<open>initialDelayMs = 0\<close> and the power has overflowed to \<open>Infinity\<close>; otherwise it
  is at least 0 and at most \<open>maxDelayMs + maxDelayMs * 0.2\<close>, both operations in double
  arithmetic. The clamp to \<open>maxDelayMs\<close> is applied to the exponential base; the jitter
  of up to 20 per cent is added afterwards, and nothing clamps the sum.
\<close>

theorem calculateDelay_bounds:
  assumes "1 \<le> i" and "0 \<le> initialDelayMs p" and "initialDelayMs p \<le> maxDelayMs p"
    and "1 < backoffMultiplier p" and "0 \<le> rnd" and "rnd < 1"
    and "roundsLikeDouble (roundToDouble ha)"
    and "roundToDouble ha (maxDelayMs p) = Finite (maxDelayMs p)"
    and "leNum (Finite 0) (mathPow ha (backoffMultiplier p) (int i - 1))"
  shows "(calculateDelay ha p i rnd = NaN \<longleftrightarrow>
            initialDelayMs p = 0 \<and> mathPow ha (backoffMultiplier p) (int i - 1) = PosInfinity)
    \<and> (calculateDelay ha p i rnd \<noteq> NaN \<longrightarrow>
         leNum (Finite 0) (calculateDelay ha p i rnd)
         \<and> leNum (calculateDelay ha p i rnd)
             (jsAdd (roundToDouble ha) (Finite (maxDelayMs p))
                (jsMultiply (roundToDouble ha) (Finite (maxDelayMs p))
                   (roundToDouble ha (2 / 10)))))"
proof -
  let ?fl = "roundToDouble ha"
  let ?I = "initialDelayMs p"
  let ?M = "maxDelayMs p"
  let ?pw = "mathPow ha (backoffMultiplier p) (int i - 1)"
  let ?base = "mathMin (jsMultiply ?fl (Finite ?I) ?pw) (Finite ?M)"
  let ?B = "jsAdd ?fl (Finite ?M) (jsMultiply ?fl (Finite ?M) (?fl (2 / 10)))"
  note r = assms(7)
  note D = roundsLikeDoubleD[OF r]
  have M0: "0 \<le> ?M" using assms(2,3) by simp
  have cd: "calculateDelay ha p i rnd =
      jsAdd ?fl ?base
        (jsMultiply ?fl (jsMultiply ?fl ?base (?fl (2 / 10)))
           (jsSubtract ?fl (jsMultiply ?fl (Finite rnd) (Finite 2)) (Finite 1)))"
    by (simp add: calculateDelay_def Let_def)
  have fin: "\<And>e. ?base = Finite e \<Longrightarrow> 0 \<le> e \<Longrightarrow> e \<le> ?M \<Longrightarrow> ?fl e = Finite e \<Longrightarrow>
      calculateDelay ha p i rnd \<noteq> NaN \<and> leNum (Finite 0) (calculateDelay ha p i rnd)
      \<and> leNum (calculateDelay ha p i rnd) ?B"
  proof -
    fix e
    assume b: "?base = Finite e" and e: "0 \<le> e" "e \<le> ?M" "?fl e = Finite e"
    show "calculateDelay ha p i rnd \<noteq> NaN \<and> leNum (Finite 0) (calculateDelay ha p i rnd)
      \<and> leNum (calculateDelay ha p i rnd) ?B"
      unfolding cd b using jitter_bounds[OF r e(1,2,3) assms(8,5,6)] by simp
  qed
  show ?thesis
  proof (cases ?pw)
    case NaN
    then show ?thesis using assms(9) by simp
  next
    case NegInfinity
    then show ?thesis using assms(9) by simp
  next
    case PosInfinity
    show ?thesis
    proof (cases "?I = 0")
      case True
      have "?base = NaN" using PosInfinity True by (simp add: mathMin_def)
      then have "calculateDelay ha p i rnd = NaN" unfolding cd by simp
      then show ?thesis using PosInfinity True by simp
    next
      case False
      then have "0 < ?I" using assms(2) by simp
      then have "?base = Finite ?M" using PosInfinity by (simp add: mathMin_def)
      from fin[OF this M0 order_refl assms(8)] show ?thesis using False by simp
    qed
  next
    case (Finite x)
    then have x0: "0 \<le> x" using assms(9) by simp
    have "0 \<le> ?I * x" using assms(2) x0 by simp
    then have "leNum (?fl 0) (?fl (?I * x))" by (rule D(2))
    then have lo: "leNum (Finite 0) (?fl (?I * x))" using D(5) by simp
    have pr: "jsMultiply ?fl (Finite ?I) ?pw = ?fl (?I * x)" using Finite by simp
    have "\<exists>e. ?base = Finite e \<and> 0 \<le> e \<and> e \<le> ?M \<and> ?fl e = Finite e"
    proof (cases "?fl (?I * x)")
      case NaN
      then show ?thesis using lo by simp
    next
      case NegInfinity
      then show ?thesis using lo by simp
    next
      case PosInfinity
      then show ?thesis using M0 assms(8) unfolding pr by (simp add: mathMin_def)
    next
      case y: (Finite y)
      have y0: "0 \<le> y" using lo y by simp
      have fy: "?fl y = Finite y" using D(3)[OF y] .
      show ?thesis
        using y0 fy M0 assms(8) unfolding pr y by (simp add: mathMin_def)
    qed
    then obtain e where "?base = Finite e" "0 \<le> e" "e \<le> ?M" "?fl e = Finite e" by blast
    from fin[OF this] show ?thesis using Finite by simp
  qed
qed

theorem calculateDelay_bounds_witness:
  "leNum (Finite 0) (calculateDelay exactArith defaultRetryPolicy 5 (3 / 4))
   \<and> leNum (calculateDelay exactArith defaultRetryPolicy 5 (3 / 4)) (Finite 6000)
   \<and> calculateDelay exactArith defaultRetryPolicy 5 (3 / 4) \<noteq> NaN
   \<and> calculateDelay overflowingArith zeroInitialPolicy 1026 (3 / 4) = NaN"
proof -
  have a: "leNum (Finite 0) (calculateDelay exactArith defaultRetryPolicy 5 (3 / 4))
      \<and> leNum (calculateDelay exactArith defaultRetryPolicy 5 (3 / 4)) (Finite 6000)
      \<and> calculateDelay exactArith defaultRetryPolicy 5 (3 / 4) \<noteq> NaN"
    using calculateDelay_bounds [of 5 defaultRetryPolicy "3 / 4" exactArith]
    by (simp add: defaultRetryPolicy_def roundsLikeDouble_exact)
       (simp add: exactArith_def calculateDelay_def mathMin_def jsSubtract_def Let_def)
  have b: "calculateDelay overflowingArith zeroInitialPolicy 1026 (3 / 4) = NaN"
    using calculateDelay_bounds [of 1026 zeroInitialPolicy "3 / 4" overflowingArith]
    by (simp add: zeroInitialPolicy_def roundsLikeDouble_overflowing overflowing_pow
        overflowing_5000)
  show ?thesis using a b by simp
qed

text \<open>
  Under the default policy the fifth attempt has base 5000; with the random value 3/4
  the delay is 5500, above \<open>maxDelayMs\<close>. And with \<open>initialDelayMs = 0\<close> and the
  multiplier 2, attempt 1026 multiplies 0 by a power that has overflowed: the delay is
  \<open>NaN\<close>, which is in no interval.
\<close>

theorem calculateDelay_exceeds_maxDelay:
  "calculateDelay exactArith defaultRetryPolicy 5 (3 / 4) = Finite 5500
   \<and> maxDelayMs defaultRetryPolicy = 5000
   \<and> \<not> leNum (calculateDelay exactArith defaultRetryPolicy 5 (3 / 4))
           (Finite (maxDelayMs defaultRetryPolicy))
   \<and> calculateDelay overflowingArith zeroInitialPolicy 1026 (3 / 4) = NaN
   \<and> \<not> leNum (Finite 0) (calculateDelay overflowingArith zeroInitialPolicy 1026 (3 / 4))"
proof -
  have a: "calculateDelay exactArith defaultRetryPolicy 5 (3 / 4) = Finite 5500"
    by (simp add: exactArith_def calculateDelay_def defaultRetryPolicy_def mathMin_def
        jsSubtract_def Let_def)
  have b: "calculateDelay overflowingArith zeroInitialPolicy 1026 (3 / 4) = NaN"
    unfolding calculateDelay_def Let_def
    by (simp add: zeroInitialPolicy_def mathMin_def overflowing_pow)
  show ?thesis using a b by (simp add: defaultRetryPolicy_def)
qed

section \<open>Properties of the metrics snapshot\<close>











section \<open>Properties of the read accessors\<close>

text \<open>
  C10: \<open>getMetrics\<close> and \<open>getLastCacheKey\<close> return the world as they found it.
  \<open>getContext\<close> leaves the instance, the history, the cache and the timers as they
  were; the reference it returns is not the instance's own array and holds a copy of the
  history. However the caller then changes the returned array, the instance and the
  history are as before, \<open>getMetrics\<close> and \<open>getLastCacheKey\<close> answer as before, and
  a further \<open>getContext\<close> again returns the history. The same holds for \<open>getContext\<close>
  of the fixed-delay variant. The records in the copy are the instance's own (the copy is
  one level deep); the statement is about changes to the returned array.
\<close>

theorem accessors_leave_state:
  assumes "allocated w" and "getContext w = (a, w1)"
    and "w2 = w1\<lparr>heap := overwrite a ys (heap w1)\<rparr>"
    and "context_ref_simple (this_simple v) < nextRef (heap_simple v)"
    and "getContext_simple v = (b, v1)"
    and "v2 = v1\<lparr>heap_simple := overwrite b zs (heap_simple v1)\<rparr>"
  shows "snd (getMetrics w) = w
    \<and> snd (getLastCacheKey w) = w
    \<and> this w1 = this w \<and> history w1 = history w
    \<and> cacheStorage w1 = cacheStorage w \<and> timers w1 = timers w
    \<and> a \<noteq> context_ref (this w)
    \<and> arrays (heap w1) a = history w
    \<and> this w2 = this w \<and> history w2 = history w
    \<and> fst (getMetrics w2) = fst (getMetrics w)
    \<and> fst (getLastCacheKey w2) = fst (getLastCacheKey w)
    \<and> arrays (heap (snd (getContext w2))) (fst (getContext w2)) = history w
    \<and> this_simple v1 = this_simple v \<and> history_simple v1 = history_simple v
    \<and> b \<noteq> context_ref_simple (this_simple v)
    \<and> arrays (heap_simple v1) b = history_simple v
    \<and> this_simple v2 = this_simple v \<and> history_simple v2 = history_simple v"
proof -
  have a: "a = nextRef (heap w)" and w1: "w1 = w\<lparr>heap := snd (spread (context_ref (this w)) (heap w))\<rparr>"
    using assms(2) by (auto simp: getContext_def spread_def newArray_def)
  have ne: "a \<noteq> context_ref (this w)"
    using assms(1) a by (simp add: allocated_def)
  have t1: "this w1 = this w" "cacheStorage w1 = cacheStorage w" "timers w1 = timers w"
    using w1 by simp_all
  have h1: "history w1 = history w"
    using ne a w1 by (simp add: spread_def newArray_def history_def)
  have c1: "arrays (heap w1) a = history w"
    using a w1 by (simp add: spread_def newArray_def history_def)
  have t2: "this w2 = this w"
    using t1 assms(3) by simp
  have h2: "history w2 = history w"
    using ne t1 h1 assms(3) by (simp add: history_def overwrite_def)
  have ar: "arithmetic w2 = arithmetic w"
    using w1 assms(3) by simp
  have m2: "fst (getMetrics w2) = fst (getMetrics w)"
    using t2 ar by (simp add: getMetrics_def Let_def)
  have k2: "fst (getLastCacheKey w2) = fst (getLastCacheKey w)"
    using h2 by (simp add: getLastCacheKey_def Let_def)
  have c2: "arrays (heap (snd (getContext w2))) (fst (getContext w2)) = history w2"
    by (simp add: getContext_def spread_def newArray_def history_def)
  have b: "b = nextRef (heap_simple v)"
    and v1: "v1 = v\<lparr>heap_simple := snd (spread (context_ref_simple (this_simple v)) (heap_simple v))\<rparr>"
    using assms(5) by (auto simp: getContext_simple_def spread_def newArray_def)
  have nb: "b \<noteq> context_ref_simple (this_simple v)"
    using assms(4) b by simp
  have s1: "this_simple v1 = this_simple v"
    using v1 by simp
  have g1: "history_simple v1 = history_simple v"
    using nb b v1 by (simp add: spread_def newArray_def history_simple_def)
  have d1: "arrays (heap_simple v1) b = history_simple v"
    using b v1 by (simp add: spread_def newArray_def history_simple_def)
  have s2: "this_simple v2 = this_simple v"
    using s1 assms(6) by simp
  have g2: "history_simple v2 = history_simple v"
    using nb s1 g1 assms(6) by (simp add: history_simple_def overwrite_def)
  have frame: "snd (getMetrics w) = w" "snd (getLastCacheKey w) = w"
    by (simp_all add: getMetrics_def getLastCacheKey_def Let_def)
  show ?thesis
    using frame ne t1 h1 c1 t2 h2 m2 k2 c2 nb s1 g1 d1 s2 g2 by simp
qed

theorem accessors_leave_state_witness:
  "fst (getLastCacheKey
        ((snd (getContext oneSuccessWorld))
           \<lparr>heap := overwrite (fst (getContext oneSuccessWorld)) []
                      (heap (snd (getContext oneSuccessWorld)))\<rparr>))
     = Some ''/screenshot-1000''
   \<and> arrays (heap (snd (getContext oneSuccessWorld))) (fst (getContext oneSuccessWorld))
       = history oneSuccessWorld
   \<and> fst (getContext oneSuccessWorld) \<noteq> context_ref (this oneSuccessWorld)
   \<and> history_simple (snd (getContext_simple newOrchestrator)) = []"
proof -
  have al: "allocated oneSuccessWorld"
    unfolding oneSuccessWorld_def by (rule allocated_runFlow[OF allocated_new])
  have sl: "context_ref_simple (this_simple newOrchestrator) < nextRef (heap_simple newOrchestrator)"
    by (simp add: newOrchestrator_def)
  have k: "fst (getLastCacheKey oneSuccessWorld) = Some ''/screenshot-1000''"
    by (simp add: getLastCacheKey_def Let_def history_oneSuccessWorld)
  have e: "history_simple newOrchestrator = []"
    by (simp add: history_simple_def newOrchestrator_def)
  show ?thesis
    using accessors_leave_state [OF al surjective_pairing refl sl surjective_pairing refl,
        where ys = "[]" and zs = "[]"] k e
    by simp
qed



end
